theory Spec2Isabelle
  imports
    Main
    "HOL-Library.Word"
    "HOL-Library.AList"
    "HOL-Library.Char_ord"
    "HOL-Library.List_Lexorder"
begin

unbundle bit_operations_syntax

section \<open>gg-config: the configuration wizard of \<^verbatim>\<open>main.go\<close>\<close>

text \<open>
  The program prompts an operator on the terminal, collects global variables, file
  descriptors and command hooks from standard input, and writes them as one JSON document.
  This theory embeds \<^verbatim>\<open>main.go\<close> function by function and proves the properties its
  specification states.

  Conventions of the embedding.
  \<^item> A Go \<^verbatim>\<open>string\<close> is a byte sequence, here a \<^typ>\<open>string\<close> (a list of 8-bit
    \<^typ>\<open>char\<close>s).
  \<^item> Standard input is the sequence of bytes the operator has still to deliver. It is a
    terminal: one read delivers at most one line, so a \<^verbatim>\<open>bufio.Scanner\<close> never holds
    bytes beyond the line it returns, and no line reaches
    \<^verbatim>\<open>bufio.MaxScanTokenSize\<close>. Every function returns the bytes it has left unread.
  \<^item> An \<^verbatim>\<open>error\<close> result is the left summand of a sum type; \<^verbatim>\<open>os.Exit\<close> ends
    \<^verbatim>\<open>main\<close> with the given status.
  \<^item> The prompts printed on standard output are not part of the model; the JSON document
    is.
  \<^item> What the program imports and this file does not define (the float parser of
    \<^verbatim>\<open>strconv\<close>, failures of the operating system) is a field of the record
    \<open>world\<close>.
\<close>

subsection \<open>Constants and types (lines 14--43)\<close>

abbreviation yes :: string where "yes \<equiv> ''y''"
abbreviation no :: string where "no \<equiv> ''n''"

abbreviation LF :: char where "LF \<equiv> CHR 0x0A"
abbreviation CR :: char where "CR \<equiv> CHR 0x0D"

type_synonym int64 = "64 word"

text \<open>A \<^verbatim>\<open>float64\<close> is its IEEE 754 bit pattern.\<close>

type_synonym float64 = "64 word"

text \<open>The dynamic types \<^verbatim>\<open>format\<close> stores in an \<^verbatim>\<open>any\<close>.\<close>

datatype any = VBool bool | VInt int64 | VFloat float64 | VString string

text \<open>
  A \<^verbatim>\<open>map[string]any\<close>: \<open>None\<close> is the nil map, \<open>Some m\<close> an allocated map with the
  entries of the association list \<open>m\<close> (one entry per key; assignment is
  \<^const>\<open>AList.update\<close>).
\<close>

type_synonym vars = "(string \<times> any) list option"

record File =
  Name :: string
  Path :: string
  Template :: string
  Local :: vars

text \<open>\<open>Args\<close> is always the slice \<^verbatim>\<open>parts[1:]\<close>, which is never nil.\<close>

record Command =
  Name :: string
  Args :: "string list"

record Config =
  Global :: vars
  Files :: "File list"
  Cmds :: "Command list"

text \<open>
  The errors of the run: those of \<^verbatim>\<open>strconv\<close> (syntax, range), of \<^verbatim>\<open>fmt.Scanf\<close>
  (a line feed or the end of input where a token is due), of the operating system (a
  failed read, write or file creation), of the encoder (a value JSON cannot express), and
  those \<^verbatim>\<open>fmt.Errorf\<close> builds: a fixed message, or a prefix put in front of another
  error with \<^verbatim>\<open>%w\<close>.
\<close>

datatype error =
    SyntaxError
  | RangeError
  | UnexpectedNewline
  | UnexpectedEOF
  | ReadFailure
  | WriteFailure
  | CreateFailure
  | UnsupportedValue
  | Errorf string
  | Wrapf string error

record world =
  ParseFloat :: "string \<Rightarrow> float64 option"
    \<comment> \<open>\<^verbatim>\<open>strconv.ParseFloat(v, 64)\<close>: the value when the error is nil\<close>
  StdinFault :: bool
    \<comment> \<open>reading standard input past its last byte fails instead of reporting end of file\<close>
  CreateFails :: bool
    \<comment> \<open>\<^verbatim>\<open>os.Create(path)\<close> returns an error\<close>
  WriteFails :: bool
    \<comment> \<open>writing the encoded document to the destination returns an error\<close>

subsection \<open>White space and tokens (\<^verbatim>\<open>strings\<close>, \<^verbatim>\<open>unicode\<close>)\<close>

text \<open>
  The UTF-8 encodings of the runes for which \<^verbatim>\<open>unicode.IsSpace\<close> (and the table of
  \<^verbatim>\<open>fmt\<close>) holds: U+0009..U+000D, U+0020, U+0085, U+00A0, U+1680, U+2000..U+200A,
  U+2028, U+2029, U+202F, U+205F, U+3000. Each starts with a byte that is no continuation
  byte, so a decoder always stands at a rune boundary in front of one.
\<close>

definition white_space :: "string list" where
  "white_space =
    [[CHR 0x09], [CHR 0x0A], [CHR 0x0B], [CHR 0x0C], [CHR 0x0D], [CHR 0x20],
     [CHR 0xC2, CHR 0x85], [CHR 0xC2, CHR 0xA0],
     [CHR 0xE1, CHR 0x9A, CHR 0x80],
     [CHR 0xE2, CHR 0x80, CHR 0x80], [CHR 0xE2, CHR 0x80, CHR 0x81],
     [CHR 0xE2, CHR 0x80, CHR 0x82], [CHR 0xE2, CHR 0x80, CHR 0x83],
     [CHR 0xE2, CHR 0x80, CHR 0x84], [CHR 0xE2, CHR 0x80, CHR 0x85],
     [CHR 0xE2, CHR 0x80, CHR 0x86], [CHR 0xE2, CHR 0x80, CHR 0x87],
     [CHR 0xE2, CHR 0x80, CHR 0x88], [CHR 0xE2, CHR 0x80, CHR 0x89],
     [CHR 0xE2, CHR 0x80, CHR 0x8A],
     [CHR 0xE2, CHR 0x80, CHR 0xA8], [CHR 0xE2, CHR 0x80, CHR 0xA9],
     [CHR 0xE2, CHR 0x80, CHR 0xAF],
     [CHR 0xE2, CHR 0x81, CHR 0x9F],
     [CHR 0xE3, CHR 0x80, CHR 0x80]]"

text \<open>The number of bytes of the white-space rune at the head of \<open>s\<close>; 0 when there is none.\<close>

definition space_width :: "string \<Rightarrow> nat" where
  "space_width s =
    (case filter (\<lambda>sp. take (length sp) s = sp) white_space of
       [] \<Rightarrow> 0
     | sp # _ \<Rightarrow> length sp)"

lemma space_width_le: "space_width s \<le> length s"
proof (cases "filter (\<lambda>sp. take (length sp) s = sp) white_space")
  case Nil
  then show ?thesis by (simp add: space_width_def)
next
  case (Cons sp sps)
  then have "sp \<in> set (filter (\<lambda>sp. take (length sp) s = sp) white_space)"
    by simp
  then have "take (length sp) s = sp"
    by simp
  then have "length (take (length sp) s) = length sp"
    by (rule arg_cong)
  then have "length sp \<le> length s"
    by simp
  with Cons show ?thesis by (simp add: space_width_def)
qed

lemma space_width_Nil [simp]: "space_width [] = 0"
  using space_width_le [of "[]"] by simp

text \<open>
  \<^verbatim>\<open>strings.Fields(s)\<close>: the maximal runs of bytes between white-space runes. The
  first argument is the field under construction.
\<close>

function Fields_from :: "string \<Rightarrow> string \<Rightarrow> string list" where
  "Fields_from cur [] = (if cur = [] then [] else [cur])"
| "Fields_from cur (c # cs) =
    (if space_width (c # cs) = 0 then Fields_from (cur @ [c]) cs
     else (if cur = [] then [] else [cur]) @ Fields_from [] (drop (space_width (c # cs)) (c # cs)))"
  by pat_completeness auto
termination
  by (relation "measure (\<lambda>(cur, s). length s)") auto

definition Fields :: "string \<Rightarrow> string list" where
  "Fields s = Fields_from [] s"

text \<open>
  \<^verbatim>\<open>strings.Split(s, sep)\<close> for a separator of one byte: the pieces between the
  separators, empty pieces included; the empty string gives one empty piece.
\<close>

fun Split :: "string \<Rightarrow> char \<Rightarrow> string list" where
  "Split [] sep = [[]]"
| "Split (c # cs) sep =
    (if c = sep then [] # Split cs sep
     else (c # hd (Split cs sep)) # tl (Split cs sep))"

subsection \<open>\<^verbatim>\<open>strconv\<close>: booleans and integers\<close>

definition ParseBool :: "string \<Rightarrow> bool \<times> error option" where
  "ParseBool str =
    (if str \<in> set [''1'', ''t'', ''T'', ''true'', ''TRUE'', ''True''] then (True, None)
     else if str \<in> set [''0'', ''f'', ''F'', ''false'', ''FALSE'', ''False''] then (False, None)
     else (False, Some SyntaxError))"

definition maxUint64 :: nat where
  "maxUint64 = 2 ^ 64 - 1"

text \<open>
  The digit loop of \<^verbatim>\<open>strconv.ParseUint(s, 10, 64)\<close>, on unbounded naturals with the
  overflow tests of the library written out.
\<close>

fun ParseUint_loop :: "nat \<Rightarrow> string \<Rightarrow> nat \<times> error option" where
  "ParseUint_loop n [] = (n, None)"
| "ParseUint_loop n (c # cs) =
    (if \<not> (CHR ''0'' \<le> c \<and> c \<le> CHR ''9'') then (0, Some SyntaxError)
     else if n \<ge> maxUint64 div 10 + 1 then (maxUint64, Some RangeError)
     else if n * 10 + (of_char c - 48) > maxUint64 then (maxUint64, Some RangeError)
     else ParseUint_loop (n * 10 + (of_char c - 48)) cs)"

definition ParseUint :: "string \<Rightarrow> nat \<times> error option" where
  "ParseUint s = (if s = [] then (0, Some SyntaxError) else ParseUint_loop 0 s)"

text \<open>\<^verbatim>\<open>strconv.ParseInt(s, 10, 64)\<close>.\<close>

definition ParseInt :: "string \<Rightarrow> int64 \<times> error option" where
  "ParseInt s =
    (if s = [] then (0, Some SyntaxError)
     else
       let neg = (hd s = CHR ''-'');
           s' = (if hd s = CHR ''+'' \<or> hd s = CHR ''-'' then tl s else s);
           (un, err) = ParseUint s'
       in if err = Some SyntaxError then (0, err)
          else if \<not> neg \<and> un \<ge> 2 ^ 63 then (word_of_nat (2 ^ 63 - 1), Some RangeError)
          else if neg \<and> un > 2 ^ 63 then (- word_of_nat (2 ^ 63), Some RangeError)
          else (if neg then - word_of_nat un else word_of_nat un, None))"

subsection \<open>\<^verbatim>\<open>format\<close> (lines 216--227)\<close>

definition format :: "world \<Rightarrow> string \<Rightarrow> any" where
  "format w v =
    (case ParseBool v of
       (val, None) \<Rightarrow> VBool val
     | _ \<Rightarrow>
      (case ParseInt v of
         (val, None) \<Rightarrow> VInt val
       | _ \<Rightarrow>
        (case ParseFloat w v of
           Some val \<Rightarrow> VFloat val
         | None \<Rightarrow> VString v)))"

subsection \<open>Reading standard input\<close>

text \<open>\<^verbatim>\<open>bufio.ScanLines\<close> drops one trailing carriage return.\<close>

definition dropCR :: "string \<Rightarrow> string" where
  "dropCR l = (if l \<noteq> [] \<and> last l = CR then butlast l else l)"

text \<open>
  One \<^verbatim>\<open>s.Scan()\<close> followed by \<^verbatim>\<open>s.Text()\<close>: the next line without its end-of-line
  marker and the bytes after it; \<open>None\<close> when \<^verbatim>\<open>Scan\<close> returns false. A last line
  without a line feed is still a line.
\<close>

definition Scan :: "string \<Rightarrow> (string \<times> string) option" where
  "Scan s =
    (if s = [] then None
     else Some (dropCR (takeWhile (\<lambda>c. c \<noteq> LF) s),
                drop (Suc (length (takeWhile (\<lambda>c. c \<noteq> LF) s))) s))"

lemma Scan_shorter: "Scan s = Some (text, rest) \<Longrightarrow> length rest < length s"
  by (auto simp: Scan_def split: if_splits)

text \<open>
  \<^verbatim>\<open>SkipSpace\<close> of \<^verbatim>\<open>fmt\<close> under \<^verbatim>\<open>Scanf\<close>, where a line feed is not white
  space but an error.
\<close>

function SkipSpace :: "string \<Rightarrow> error + string" where
  "SkipSpace [] = Inr []"
| "SkipSpace (c # cs) =
    (if c = LF then Inl UnexpectedNewline
     else if space_width (c # cs) = 0 then Inr (c # cs)
     else SkipSpace (drop (space_width (c # cs)) (c # cs)))"
  by pat_completeness auto
termination
  by (relation "measure length") auto

text \<open>The verb \<^verbatim>\<open>%s\<close>: the bytes up to the next white-space rune, and what follows.\<close>

fun token :: "string \<Rightarrow> string \<times> string" where
  "token [] = ([], [])"
| "token (c # cs) =
    (if space_width (c # cs) = 0 then (c # fst (token cs), snd (token cs))
     else ([], c # cs))"

text \<open>
  \<^verbatim>\<open>fmt.Scanf("%s", &temp)\<close> on standard input: the count of operands filled, the
  error, the value of \<^verbatim>\<open>temp\<close> and the bytes left. Standard input has no
  \<^verbatim>\<open>UnreadRune\<close>, so the rune that ends the token is consumed with it. Input is
  taken to be valid UTF-8 (an invalid byte would be stored as U+FFFD).
\<close>

definition Scanf_s :: "world \<Rightarrow> string \<Rightarrow> nat \<times> error option \<times> string \<times> string" where
  "Scanf_s w s =
    (case SkipSpace s of
       Inl err \<Rightarrow> (0, Some err, [], [])
     | Inr [] \<Rightarrow> (0, Some (if StdinFault w then ReadFailure else UnexpectedEOF), [], [])
     | Inr s' \<Rightarrow>
        (case token s' of
           (temp, []) \<Rightarrow>
             if StdinFault w then (0, Some ReadFailure, [], []) else (1, None, temp, [])
         | (temp, rest) \<Rightarrow> (1, None, temp, drop (space_width rest) rest)))"

subsection \<open>\<^verbatim>\<open>scan\<close> (lines 260--272)\<close>

definition scan :: "world \<Rightarrow> string \<Rightarrow> error + string \<times> string" where
  "scan w s =
    (case Scanf_s w s of
       (n, Some err, temp, rest) \<Rightarrow> Inl err
     | (n, None, temp, rest) \<Rightarrow>
        if n \<noteq> 1 then Inl (Errorf ''wrong number of tokens: %d'') else Inr (temp, rest))"

lemma SkipSpace_length: "SkipSpace s = Inr s' \<Longrightarrow> length s' \<le> length s"
proof (induction s rule: SkipSpace.induct)
  case 1
  then show ?case by simp
next
  case (2 c cs)
  show ?case
  proof (cases "c = LF \<or> space_width (c # cs) = 0")
    case True
    with "2.prems" show ?thesis by (auto split: if_splits)
  next
    case False
    with "2.prems" have "SkipSpace (drop (space_width (c # cs)) (c # cs)) = Inr s'"
      by simp
    with False "2.IH" have "length s' \<le> length (drop (space_width (c # cs)) (c # cs))"
      by simp
    then show ?thesis by simp
  qed
qed

lemma SkipSpace_stops: "SkipSpace s = Inr s' \<Longrightarrow> space_width s' = 0"
proof (induction s rule: SkipSpace.induct)
  case 1
  then show ?case by auto
next
  case (2 c cs)
  then show ?case by (auto split: if_splits)
qed

lemma token_append: "fst (token s) @ snd (token s) = s"
  by (induction s rule: token.induct) auto

lemma token_length: "length (fst (token s)) + length (snd (token s)) = length s"
  using token_append [of s] by (metis length_append)

lemma token_not_empty: "s \<noteq> [] \<Longrightarrow> space_width s = 0 \<Longrightarrow> fst (token s) \<noteq> []"
  by (cases s) auto

text \<open>A successful \<^verbatim>\<open>Scanf\<close> fills its operand with at least one byte, taken from the input.\<close>

lemma Scanf_s_ok:
  assumes "Scanf_s w s = (n, None, temp, rest)"
  shows "n = 1 \<and> temp \<noteq> [] \<and> length rest < length s"
proof -
  from assms obtain s' where sk: "SkipSpace s = Inr s'" and ne: "s' \<noteq> []"
    by (auto simp: Scanf_s_def split: sum.splits list.splits)
  from sk have w0: "space_width s' = 0" and le: "length s' \<le> length s"
    by (rule SkipSpace_stops, rule SkipSpace_length)
  from ne w0 have t: "fst (token s') \<noteq> []"
    by (rule token_not_empty)
  have len: "length (fst (token s')) + length (snd (token s')) = length s'"
    by (rule token_length)
  from assms sk ne have "n = 1" and "temp = fst (token s')"
    and "length rest \<le> length (snd (token s'))"
    by (auto simp: Scanf_s_def split: list.splits prod.splits if_splits)
  with t len le show ?thesis
    by (cases "fst (token s')") auto
qed

lemma scan_ok:
  "scan w s = Inr (temp, rest) \<Longrightarrow> temp \<noteq> [] \<and> length rest < length s"
  using Scanf_s_ok [of w s]
  by (auto simp: scan_def split: prod.splits option.splits if_splits)

lemma scan_shorter: "scan w s = Inr (temp, rest) \<Longrightarrow> length rest < length s"
  by (simp add: scan_ok)

subsection \<open>\<^verbatim>\<open>processVariables\<close> (lines 229--258)\<close>

text \<open>
  The loop \<^verbatim>\<open>for s.Scan()\<close> with the map built so far; the result is the map and the
  unread input, or the error.
\<close>

function processVariables_loop :: "world \<Rightarrow> vars \<Rightarrow> string \<Rightarrow> error + vars \<times> string" where
  "processVariables_loop w result s =
    (case Scan s of
       None \<Rightarrow>
         if StdinFault w then Inl (Wrapf ''process variables'' ReadFailure)
         else Inr (result, s)
     | Some (text, rest) \<Rightarrow>
         if text = yes then processVariables_loop w result rest
         else if text = no then Inr (result, rest)
         else if length (Split text (CHR '' '')) \<noteq> 2
           then Inl (Errorf ''incorrect number of tokens'')
         else processVariables_loop w
           (Some (AList.update (Split text (CHR '' '') ! 0)
                    (format w (Split text (CHR '' '') ! 1))
                    (case result of None \<Rightarrow> [] | Some m \<Rightarrow> m)))
           rest)"
  by pat_completeness auto
termination
  by (relation "measure (\<lambda>(w, result, s). length s)") (auto dest: Scan_shorter)

declare processVariables_loop.simps [simp del]

definition processVariables :: "world \<Rightarrow> string \<Rightarrow> error + vars \<times> string" where
  "processVariables w s = processVariables_loop w None s"

lemma processVariables_loop_length:
  "processVariables_loop w result s = Inr (result', s') \<Longrightarrow> length s' \<le> length s"
proof (induction "length s" arbitrary: s result rule: less_induct)
  case less
  show ?case
  proof (cases "Scan s")
    case None
    with less.prems show ?thesis
      by (simp add: processVariables_loop.simps [of w result s] split: if_splits)
  next
    case (Some p)
    obtain ln rest where p: "p = (ln, rest)" by (cases p)
    from Some p have sh: "length rest < length s"
      by (simp add: Scan_shorter)
    have "length s' \<le> length rest"
      if "processVariables_loop w r rest = Inr (result', s')" for r
      using less.hyps [OF sh that] .
    with Some p less.prems sh show ?thesis
      by (fastforce simp: processVariables_loop.simps [of w result s] split: if_splits)
  qed
qed

subsection \<open>\<^verbatim>\<open>readGlobals\<close> (lines 96--102)\<close>

definition readGlobals :: "world \<Rightarrow> string \<Rightarrow> error + vars \<times> string" where
  "readGlobals w s =
    (case processVariables w s of
       Inl err \<Rightarrow> Inl (Wrapf ''global variables'' err)
     | Inr (result, rest) \<Rightarrow> Inr (result, rest))"

subsection \<open>\<^verbatim>\<open>readFiles\<close> (lines 122--171)\<close>

text \<open>One turn of the loop \<^verbatim>\<open>Cycle\<close>, with the files appended so far.\<close>

function readFiles_loop :: "world \<Rightarrow> File list \<Rightarrow> string \<Rightarrow> error + File list \<times> string" where
  "readFiles_loop w result s =
    (case scan w s of
       Inl err \<Rightarrow> Inl (Wrapf ''file parameters'' err)
     | Inr (name, s1) \<Rightarrow>
    (case scan w s1 of
       Inl err \<Rightarrow> Inl (Wrapf ''file parameters'' err)
     | Inr (path, s2) \<Rightarrow>
    (case scan w s2 of
       Inl err \<Rightarrow> Inl (Wrapf ''file parameters'' err)
     | Inr (template, s3) \<Rightarrow>
    (case processVariables w s3 of
       Inl err \<Rightarrow> Inl (Wrapf ''file parameters'' err)
     | Inr (local, s4) \<Rightarrow>
    (case scan w s4 of
       Inl err \<Rightarrow> Inl (Wrapf ''file parameters'' err)
     | Inr (answer, s5) \<Rightarrow>
         if answer = yes then
           readFiles_loop w
             (result @ [\<lparr>File.Name = name, Path = path, Template = template, Local = local\<rparr>]) s5
         else if answer = no then
           Inr (result @ [\<lparr>File.Name = name, Path = path, Template = template, Local = local\<rparr>],
                s5)
         else
           readFiles_loop w
             (result @ [\<lparr>File.Name = name, Path = path, Template = template, Local = local\<rparr>]) s5)))))"
  by pat_completeness auto
termination
proof (relation "measure (\<lambda>(w, result, s). length s)", goal_cases)
  case 1
  show ?case by simp
next
  case (2 w result s x name s1 y path s2 z template s3 u local s4 v answer s5)
  then have "length s1 < length s" "length s2 < length s1" "length s3 < length s2"
    "length s4 \<le> length s3" "length s5 < length s4"
    using scan_shorter [of w s name s1] scan_shorter [of w s1 path s2]
      scan_shorter [of w s2 template s3] scan_shorter [of w s4 answer s5]
      processVariables_loop_length [of w None s3 local s4]
    by (simp_all add: processVariables_def)
  then show ?case by simp
next
  case (3 w result s x name s1 y path s2 z template s3 u local s4 v answer s5)
  then have "length s1 < length s" "length s2 < length s1" "length s3 < length s2"
    "length s4 \<le> length s3" "length s5 < length s4"
    using scan_shorter [of w s name s1] scan_shorter [of w s1 path s2]
      scan_shorter [of w s2 template s3] scan_shorter [of w s4 answer s5]
      processVariables_loop_length [of w None s3 local s4]
    by (simp_all add: processVariables_def)
  then show ?case by simp
qed

declare readFiles_loop.simps [simp del]

definition readFiles :: "world \<Rightarrow> string \<Rightarrow> error + File list \<times> string" where
  "readFiles w s = readFiles_loop w [] s"

subsection \<open>\<^verbatim>\<open>readCommands\<close> (lines 184--214)\<close>

function readCommands_loop ::
  "world \<Rightarrow> Command list \<Rightarrow> string \<Rightarrow> error + Command list \<times> string" where
  "readCommands_loop w result s =
    (case Scan s of
       None \<Rightarrow>
         if StdinFault w then Inl (Wrapf ''read commands'' ReadFailure)
         else Inr (result, s)
     | Some (text, rest) \<Rightarrow>
         if text = yes then readCommands_loop w result rest
         else if text = no then Inr (result, rest)
         else if length (Fields text) = 0
           then Inl (Errorf ''incorrect command declaration length'')
         else readCommands_loop w
           (result @ [\<lparr>Command.Name = Fields text ! 0, Args = drop 1 (Fields text)\<rparr>])
           rest)"
  by pat_completeness auto
termination
  by (relation "measure (\<lambda>(w, result, s). length s)") (auto dest: Scan_shorter)

declare readCommands_loop.simps [simp del]

definition readCommands :: "world \<Rightarrow> string \<Rightarrow> error + Command list \<times> string" where
  "readCommands w s = readCommands_loop w [] s"

subsection \<open>The JSON encoder (\<^verbatim>\<open>encoding/json\<close>) on \<^verbatim>\<open>Config\<close> (lines 27--43)\<close>

text \<open>
  The document as a JSON value rather than as text: the members of an object in the order
  the encoder writes them. The decimal text of a number and the escapes of a string are
  not part of the model.
\<close>

datatype json =
    JNull
  | JBool bool
  | JInt int
  | JFloat float64
  | JString string
  | JArray "json list"
  | JObject "(string \<times> json) list"

text \<open>A \<^verbatim>\<open>float64\<close> with all exponent bits set is an infinity or a NaN.\<close>

definition IsInfOrNaN :: "float64 \<Rightarrow> bool" where
  "IsInfOrNaN f = (drop_bit 52 f AND 0x7FF = 0x7FF)"

fun encode_any :: "any \<Rightarrow> error + json" where
  "encode_any (VBool b) = Inr (JBool b)"
| "encode_any (VInt i) = Inr (JInt (sint i))"
| "encode_any (VFloat f) = (if IsInfOrNaN f then Inl UnsupportedValue else Inr (JFloat f))"
| "encode_any (VString s) = Inr (JString s)"

fun encode_entries :: "(string \<times> any) list \<Rightarrow> error + (string \<times> json) list" where
  "encode_entries [] = Inr []"
| "encode_entries ((k, v) # kvs) =
    (case encode_any v of
       Inl err \<Rightarrow> Inl err
     | Inr j \<Rightarrow>
        (case encode_entries kvs of
           Inl err \<Rightarrow> Inl err
         | Inr js \<Rightarrow> Inr ((k, j) # js)))"

text \<open>A nil map is \<^verbatim>\<open>null\<close>; an allocated map is an object with its keys sorted.\<close>

definition encode_map :: "vars \<Rightarrow> error + json" where
  "encode_map m =
    (case m of
       None \<Rightarrow> Inr JNull
     | Some kvs \<Rightarrow>
        (case encode_entries (sort_key fst kvs) of
           Inl err \<Rightarrow> Inl err
         | Inr js \<Rightarrow> Inr (JObject js)))"

text \<open>No field of \<^verbatim>\<open>File\<close> carries \<^verbatim>\<open>omitempty\<close>.\<close>

definition encode_File :: "File \<Rightarrow> error + json" where
  "encode_File f =
    (case encode_map (Local f) of
       Inl err \<Rightarrow> Inl err
     | Inr l \<Rightarrow>
        Inr (JObject [(''name'', JString (File.Name f)), (''path'', JString (Path f)),
                      (''template'', JString (Template f)), (''local'', l)]))"

fun encode_Files :: "File list \<Rightarrow> error + json list" where
  "encode_Files [] = Inr []"
| "encode_Files (f # fs) =
    (case encode_File f of
       Inl err \<Rightarrow> Inl err
     | Inr j \<Rightarrow>
        (case encode_Files fs of
           Inl err \<Rightarrow> Inl err
         | Inr js \<Rightarrow> Inr (j # js)))"

definition encode_Command :: "Command \<Rightarrow> json" where
  "encode_Command c =
    JObject [(''name'', JString (Command.Name c)), (''args'', JArray (map JString (Args c)))]"

text \<open>
  \<^verbatim>\<open>Files\<close> and \<^verbatim>\<open>Cmds\<close> carry \<^verbatim>\<open>omitempty\<close>: a slice of length 0 is left out.
  \<^verbatim>\<open>Global\<close> does not.
\<close>

definition Marshal :: "Config \<Rightarrow> error + json" where
  "Marshal c =
    (case encode_map (Global c) of
       Inl err \<Rightarrow> Inl err
     | Inr g \<Rightarrow>
        (case encode_Files (Files c) of
           Inl err \<Rightarrow> Inl err
         | Inr fs \<Rightarrow>
            Inr (JObject
              ([(''global'', g)]
               @ (if length (Files c) = 0 then [] else [(''files'', JArray fs)])
               @ (if length (Cmds c) = 0 then []
                  else [(''commands'', JArray (map encode_Command (Cmds c)))])))))"

text \<open>\<^verbatim>\<open>json.NewEncoder(f).Encode(output)\<close>: encode in memory, then write once.\<close>

definition Encode :: "world \<Rightarrow> Config \<Rightarrow> error + json" where
  "Encode w output =
    (case Marshal output of
       Inl err \<Rightarrow> Inl err
     | Inr j \<Rightarrow> if WriteFails w then Inl WriteFailure else Inr j)"

subsection \<open>\<^verbatim>\<open>main\<close> (lines 45--86)\<close>

datatype log_line = LogPrintf string error | LogFatalln string error

text \<open>
  What a run leaves behind: the exit status, the document written together with the
  destination path (the empty path is standard output), and the log.
\<close>

record outcome =
  exit_status :: nat
  document :: "(string \<times> json) option"
  logged :: "log_line list"

text \<open>The deferred function of \<^verbatim>\<open>main\<close>; \<^verbatim>\<open>log.Fatalln\<close> exits with status 1.\<close>

definition deferred :: "world \<Rightarrow> string \<Rightarrow> Config \<Rightarrow> outcome" where
  "deferred w path output =
    (if path \<noteq> [] \<and> CreateFails w then
       \<lparr>exit_status = 1, document = None,
        logged = [LogFatalln ''failed to create output file:'' CreateFailure]\<rparr>
     else
       (case Encode w output of
          Inl err \<Rightarrow>
            \<lparr>exit_status = 0, document = None,
             logged = [LogPrintf ''failed to produce output: '' err]\<rparr>
        | Inr j \<Rightarrow> \<lparr>exit_status = 0, document = Some (path, j), logged = []\<rparr>))"

text \<open>\<^verbatim>\<open>os.Exit(1)\<close> after a failed stage: the deferred function does not run.\<close>

definition failed :: "error \<Rightarrow> outcome" where
  "failed err =
    \<lparr>exit_status = 1, document = None,
     logged = [LogPrintf ''failed to process config: '' err]\<rparr>"

definition main :: "world \<Rightarrow> string \<Rightarrow> string \<Rightarrow> outcome" where
  "main w path stdin =
    (case readGlobals w stdin of
       Inl err \<Rightarrow> failed err
     | Inr (global, s1) \<Rightarrow>
    (case readFiles w s1 of
       Inl err \<Rightarrow> failed err
     | Inr (files, s2) \<Rightarrow>
    (case readCommands w s2 of
       Inl err \<Rightarrow> failed err
     | Inr (cmds, s3) \<Rightarrow>
         deferred w path \<lparr>Global = global, Files = files, Cmds = cmds\<rparr>)))"

subsection \<open>Sessions\<close>

text \<open>What the operator types: every line is ended by the return key.\<close>

definition typed :: "string list \<Rightarrow> string" where
  "typed ls = concat (map (\<lambda>l. l @ [LF]) ls)"

text \<open>
  \<^verbatim>\<open>strconv.ParseFloat\<close> on the tokens of the sessions below: of those that reach it, it
  accepts \<^verbatim>\<open>1.5\<close> and \<^verbatim>\<open>NaN\<close> and rejects the others.
\<close>

definition ParseFloat_sessions :: "string \<Rightarrow> float64 option" where
  "ParseFloat_sessions v =
    (if v = ''1.5'' then Some 0x3FF8000000000000
     else if v = ''NaN'' then Some 0x7FF8000000000001
     else None)"

text \<open>A terminal where nothing fails, and one where the output file cannot be created.\<close>

definition terminal :: world where
  "terminal =
    \<lparr>ParseFloat = ParseFloat_sessions, StdinFault = False, CreateFails = False,
     WriteFails = False\<rparr>"

definition terminal_no_create :: world where
  "terminal_no_create = terminal\<lparr>CreateFails := True\<rparr>"

subsection \<open>Notions used to state the properties\<close>

text \<open>The table \<^verbatim>\<open>asciiSpace\<close> of the package \<^verbatim>\<open>strings\<close>.\<close>

definition asciiSpace :: "char list" where
  "asciiSpace = [CHR 0x09, CHR 0x0A, CHR 0x0B, CHR 0x0C, CHR 0x0D, CHR 0x20]"

text \<open>A byte of an ASCII token.\<close>

definition plain :: "char \<Rightarrow> bool" where
  "plain c = (of_char c < (128::nat) \<and> c \<notin> set asciiSpace)"

text \<open>
  The specification speaks of tokens that match \<^verbatim>\<open>^-?\d+$\<close> and of their value.
  The definitions of \<open>matches_integer\<close> and \<open>integer_value\<close> follow its words, not the
  code.
\<close>

definition digit :: "char \<Rightarrow> bool" where
  "digit c = (CHR ''0'' \<le> c \<and> c \<le> CHR ''9'')"

definition decimal_from :: "nat \<Rightarrow> string \<Rightarrow> nat" where
  "decimal_from n ds = foldl (\<lambda>n c. 10 * n + (of_char c - 48)) n ds"

definition matches_integer :: "string \<Rightarrow> bool" where
  "matches_integer v =
    (if v \<noteq> [] \<and> hd v = CHR ''-'' then tl v \<noteq> [] \<and> list_all digit (tl v)
     else v \<noteq> [] \<and> list_all digit v)"

definition integer_value :: "string \<Rightarrow> int" where
  "integer_value v =
    (if v \<noteq> [] \<and> hd v = CHR ''-'' then - int (decimal_from 0 (tl v))
     else int (decimal_from 0 v))"

text \<open>
  The turns of the file loop that end with an answer other than \<^verbatim>\<open>n\<close>: from the input
  \<open>s\<close> the loop reads the files \<open>fs\<close>, one per turn, and stands at the input \<open>s'\<close> at the
  start of the next turn.
\<close>

inductive file_turns :: "world \<Rightarrow> string \<Rightarrow> File list \<Rightarrow> string \<Rightarrow> bool" where
  no_turn: "file_turns w s [] s"
| turn: "scan w s = Inr (name, s1) \<Longrightarrow> scan w s1 = Inr (path, s2) \<Longrightarrow>
     scan w s2 = Inr (template, s3) \<Longrightarrow> processVariables w s3 = Inr (local, s4) \<Longrightarrow>
     scan w s4 = Inr (answer, s5) \<Longrightarrow> answer \<noteq> no \<Longrightarrow> file_turns w s5 fs s' \<Longrightarrow>
     file_turns w s
       (\<lparr>File.Name = name, Path = path, Template = template, Local = local\<rparr> # fs) s'"

text \<open>
  Splitting a line on white space, in the words of the specification and without the
  code: a white-space rune starts somewhere in \<open>t\<close>; \<open>u\<close> is a run of white-space runes;
  and the line \<open>ln\<close> consists of the tokens \<open>ts\<close>, in this order, each of them non-empty
  and free of white space, with a run of white space in front of each token, at least one
  white-space rune after each token that is not the end of the line, and nothing else.
\<close>

fun has_space :: "string \<Rightarrow> bool" where
  "has_space [] = False"
| "has_space (c # cs) =
    (list_ex (\<lambda>r. take (length r) (c # cs) = r) white_space \<or> has_space cs)"

inductive space_run :: "string \<Rightarrow> bool" where
  no_rune: "space_run []"
| rune: "r \<in> set white_space \<Longrightarrow> space_run u \<Longrightarrow> space_run (r @ u)"

inductive fields_of :: "string \<Rightarrow> string list \<Rightarrow> bool" where
  blank: "space_run u \<Longrightarrow> fields_of u []"
| field: "space_run u \<Longrightarrow> t \<noteq> [] \<Longrightarrow> \<not> has_space t \<Longrightarrow>
     rest = [] \<or> list_ex (\<lambda>r. take (length r) rest = r) white_space \<Longrightarrow>
     fields_of rest ts \<Longrightarrow> fields_of (u @ t @ rest) (t # ts)"

subsection \<open>Reading a document back (\<^verbatim>\<open>json.Unmarshal\<close> into \<^verbatim>\<open>Config\<close>)\<close>

text \<open>
  The program never reads a document: the round trip of the specification needs the
  decoder of \<^verbatim>\<open>encoding/json\<close>, which is written here after the documentation of
  \<^verbatim>\<open>json.Unmarshal\<close> for the target type \<^verbatim>\<open>Config\<close>.
  \<^item> Into an \<^verbatim>\<open>any\<close> the decoder stores a \<^verbatim>\<open>bool\<close> for a JSON boolean, a
    \<^verbatim>\<open>float64\<close> for every JSON number and a \<^verbatim>\<open>string\<close> for a JSON string.
  \<^item> \<^verbatim>\<open>null\<close> makes a map or a slice nil and leaves a string as it is, the empty
    string in a fresh target; a member that is absent leaves its field at the zero value.
  \<^item> An object read into a map assigns its members in order, so a later value replaces an
    earlier one for the same key.
  \<^item> \<open>None\<close> is an error of the decoder, or a document outside this model: \<^verbatim>\<open>null\<close>, an
    array or an object as a value of a map, and an object for a struct that repeats a
    member name. Member names are matched exactly.

  Strings are taken to be valid UTF-8: the encoder replaces every invalid byte by U+FFFD,
  which \<open>encode_any\<close> leaves out, so a statement about the round trip is confined to
  valid strings.
\<close>

text \<open>The position of the highest bit of a positive number.\<close>

fun ilog2 :: "nat \<Rightarrow> nat" where
  "ilog2 n = (if n < 2 then 0 else Suc (ilog2 (n div 2)))"

declare ilog2.simps [simp del]

text \<open>
  The \<^verbatim>\<open>float64\<close> nearest to an integer, ties to the even mantissa: what
  \<^verbatim>\<open>strconv.ParseFloat\<close> returns for the decimal text of a 64-bit integer. The mantissa
  \<open>q\<close> has 53 bits; when rounding carries it to \<open>2 ^ 53\<close> the sum moves the carry into the
  exponent.
\<close>

definition float64_of_int :: "int \<Rightarrow> float64" where
  "float64_of_int i =
    (if i = 0 then 0
     else
       let m = nat \<bar>i\<bar>;
           e = ilog2 m;
           q = (if e \<le> 52 then m * 2 ^ (52 - e)
                else if 2 * (m mod 2 ^ (e - 52)) > 2 ^ (e - 52)
                        \<or> (2 * (m mod 2 ^ (e - 52)) = 2 ^ (e - 52) \<and> odd (m div 2 ^ (e - 52)))
                  then m div 2 ^ (e - 52) + 1
                else m div 2 ^ (e - 52))
       in word_of_nat ((if i < 0 then 2 ^ 63 else 0) + (e + 1023) * 2 ^ 52 + (q - 2 ^ 52)))"

fun decode_any :: "json \<Rightarrow> any option" where
  "decode_any (JBool b) = Some (VBool b)"
| "decode_any (JInt i) = Some (VFloat (float64_of_int i))"
| "decode_any (JFloat f) = Some (VFloat f)"
| "decode_any (JString s) = Some (VString s)"
| "decode_any JNull = None"
| "decode_any (JArray js) = None"
| "decode_any (JObject kjs) = None"

text \<open>The members of an object assigned to the map \<open>m\<close>, in order.\<close>

fun decode_members :: "(string \<times> json) list \<Rightarrow> (string \<times> any) list \<Rightarrow> (string \<times> any) list option" where
  "decode_members [] m = Some m"
| "decode_members ((k, j) # kjs) m =
    (case decode_any j of
       None \<Rightarrow> None
     | Some v \<Rightarrow> decode_members kjs (AList.update k v m))"

fun decode_map :: "json \<Rightarrow> vars option" where
  "decode_map JNull = Some None"
| "decode_map (JObject kjs) =
    (case decode_members kjs [] of None \<Rightarrow> None | Some m \<Rightarrow> Some (Some m))"
| "decode_map (JBool b) = None"
| "decode_map (JInt i) = None"
| "decode_map (JFloat f) = None"
| "decode_map (JString s) = None"
| "decode_map (JArray js) = None"

fun decode_string :: "json \<Rightarrow> string option" where
  "decode_string (JString s) = Some s"
| "decode_string JNull = Some []"
| "decode_string (JBool b) = None"
| "decode_string (JInt i) = None"
| "decode_string (JFloat f) = None"
| "decode_string (JArray js) = None"
| "decode_string (JObject kjs) = None"

text \<open>The member of an object for a field of a struct; an absent member acts as \<^verbatim>\<open>null\<close>.\<close>

definition member_named :: "(string \<times> json) list \<Rightarrow> string \<Rightarrow> json" where
  "member_named kjs k = (case map_of kjs k of None \<Rightarrow> JNull | Some j \<Rightarrow> j)"

definition decode_File :: "json \<Rightarrow> File option" where
  "decode_File j =
    (case j of
       JObject kjs \<Rightarrow>
         if \<not> distinct (map fst kjs) then None
         else
          (case (decode_string (member_named kjs ''name''), decode_string (member_named kjs ''path''),
                 decode_string (member_named kjs ''template''), decode_map (member_named kjs ''local'')) of
             (Some n, Some p, Some t, Some l) \<Rightarrow>
               Some \<lparr>File.Name = n, Path = p, Template = t, Local = l\<rparr>
           | _ \<Rightarrow> None)
     | JNull \<Rightarrow> Some \<lparr>File.Name = [], Path = [], Template = [], Local = None\<rparr>
     | _ \<Rightarrow> None)"

definition decode_strings :: "json \<Rightarrow> string list option" where
  "decode_strings j =
    (case j of
       JArray js \<Rightarrow> those (map decode_string js)
     | JNull \<Rightarrow> Some []
     | _ \<Rightarrow> None)"

definition decode_Command :: "json \<Rightarrow> Command option" where
  "decode_Command j =
    (case j of
       JObject kjs \<Rightarrow>
         if \<not> distinct (map fst kjs) then None
         else
          (case (decode_string (member_named kjs ''name''), decode_strings (member_named kjs ''args'')) of
             (Some n, Some a) \<Rightarrow> Some \<lparr>Command.Name = n, Args = a\<rparr>
           | _ \<Rightarrow> None)
     | JNull \<Rightarrow> Some \<lparr>Command.Name = [], Args = []\<rparr>
     | _ \<Rightarrow> None)"

definition decode_Files :: "json \<Rightarrow> File list option" where
  "decode_Files j =
    (case j of
       JArray js \<Rightarrow> those (map decode_File js)
     | JNull \<Rightarrow> Some []
     | _ \<Rightarrow> None)"

definition decode_Commands :: "json \<Rightarrow> Command list option" where
  "decode_Commands j =
    (case j of
       JArray js \<Rightarrow> those (map decode_Command js)
     | JNull \<Rightarrow> Some []
     | _ \<Rightarrow> None)"

definition Unmarshal :: "json \<Rightarrow> Config option" where
  "Unmarshal j =
    (case j of
       JObject kjs \<Rightarrow>
         if \<not> distinct (map fst kjs) then None
         else
          (case (decode_map (member_named kjs ''global''), decode_Files (member_named kjs ''files''),
                 decode_Commands (member_named kjs ''commands'')) of
             (Some g, Some fs, Some cs) \<Rightarrow> Some \<lparr>Global = g, Files = fs, Cmds = cs\<rparr>
           | _ \<Rightarrow> None)
     | _ \<Rightarrow> None)"

text \<open>
  What the round trip of a document is stated with: the scalar a scalar is read back as;
  a map with its keys in the order of the encoder; documents all of whose floats are
  finite; maps with one entry per key, as every Go map has; and strings that are valid
  UTF-8 (\<^verbatim>\<open>utf8.ValidString\<close>).
\<close>

fun read_any :: "any \<Rightarrow> any" where
  "read_any (VInt i) = VFloat (float64_of_int (sint i))"
| "read_any (VBool b) = VBool b"
| "read_any (VFloat f) = VFloat f"
| "read_any (VString s) = VString s"

definition read_vars :: "vars \<Rightarrow> vars" where
  "read_vars m =
    (case m of
       None \<Rightarrow> None
     | Some kvs \<Rightarrow> Some (map (\<lambda>(k, v). (k, read_any v)) (sort_key fst kvs)))"

definition read_File :: "File \<Rightarrow> File" where
  "read_File f = f\<lparr>Local := read_vars (Local f)\<rparr>"

definition read_Config :: "Config \<Rightarrow> Config" where
  "read_Config c =
    \<lparr>Global = read_vars (Global c), Files = map read_File (Files c), Cmds = Cmds c\<rparr>"

definition lookup :: "vars \<Rightarrow> string \<Rightarrow> any option" where
  "lookup m k = (case m of None \<Rightarrow> None | Some kvs \<Rightarrow> map_of kvs k)"

fun finite_any :: "any \<Rightarrow> bool" where
  "finite_any (VFloat f) = (\<not> IsInfOrNaN f)"
| "finite_any (VBool b) = True"
| "finite_any (VInt i) = True"
| "finite_any (VString s) = True"

definition finite_vars :: "vars \<Rightarrow> bool" where
  "finite_vars m = (case m of None \<Rightarrow> True | Some kvs \<Rightarrow> list_all (\<lambda>kv. finite_any (snd kv)) kvs)"

definition finite_Config :: "Config \<Rightarrow> bool" where
  "finite_Config c = (finite_vars (Global c) \<and> list_all (\<lambda>f. finite_vars (Local f)) (Files c))"

definition one_per_key :: "vars \<Rightarrow> bool" where
  "one_per_key m = (case m of None \<Rightarrow> True | Some kvs \<Rightarrow> distinct (map fst kvs))"

definition continuation :: "char \<Rightarrow> bool" where
  "continuation c = (0x80 \<le> (of_char c :: nat) \<and> (of_char c :: nat) \<le> 0xBF)"

function ValidString :: "string \<Rightarrow> bool" where
  "ValidString [] = True"
| "ValidString (c # cs) =
    (if (of_char c :: nat) < 0x80 then ValidString cs
     else if 0xC2 \<le> (of_char c :: nat) \<and> (of_char c :: nat) \<le> 0xDF then
       (case cs of
          c1 # r \<Rightarrow> continuation c1 \<and> ValidString r
        | _ \<Rightarrow> False)
     else if 0xE0 \<le> (of_char c :: nat) \<and> (of_char c :: nat) \<le> 0xEF then
       (case cs of
          c1 # c2 # r \<Rightarrow>
            continuation c1 \<and> continuation c2
            \<and> (c = CHR 0xE0 \<longrightarrow> 0xA0 \<le> (of_char c1 :: nat))
            \<and> (c = CHR 0xED \<longrightarrow> (of_char c1 :: nat) \<le> 0x9F)
            \<and> ValidString r
        | _ \<Rightarrow> False)
     else if 0xF0 \<le> (of_char c :: nat) \<and> (of_char c :: nat) \<le> 0xF4 then
       (case cs of
          c1 # c2 # c3 # r \<Rightarrow>
            continuation c1 \<and> continuation c2 \<and> continuation c3
            \<and> (c = CHR 0xF0 \<longrightarrow> 0x90 \<le> (of_char c1 :: nat))
            \<and> (c = CHR 0xF4 \<longrightarrow> (of_char c1 :: nat) \<le> 0x8F)
            \<and> ValidString r
        | _ \<Rightarrow> False)
     else False)"
  by pat_completeness auto
termination
  by (relation "measure length") auto

fun valid_any :: "any \<Rightarrow> bool" where
  "valid_any (VString s) = ValidString s"
| "valid_any (VBool b) = True"
| "valid_any (VInt i) = True"
| "valid_any (VFloat f) = True"

definition valid_vars :: "vars \<Rightarrow> bool" where
  "valid_vars m =
    (case m of
       None \<Rightarrow> True
     | Some kvs \<Rightarrow> list_all (\<lambda>kv. ValidString (fst kv) \<and> valid_any (snd kv)) kvs)"

definition valid_Config :: "Config \<Rightarrow> bool" where
  "valid_Config c =
    (valid_vars (Global c)
     \<and> list_all (\<lambda>f. ValidString (File.Name f) \<and> ValidString (Path f)
                   \<and> ValidString (Template f) \<and> valid_vars (Local f)) (Files c)
     \<and> list_all (\<lambda>c. ValidString (Command.Name c) \<and> list_all ValidString (Args c)) (Cmds c))"

definition well_formed :: "Config \<Rightarrow> bool" where
  "well_formed c =
    (one_per_key (Global c) \<and> list_all (\<lambda>f. one_per_key (Local f)) (Files c) \<and> valid_Config c)"

section \<open>Auxiliary facts\<close>

subsection \<open>One turn of each loop\<close>

lemma processVariables_loop_eof:
  "processVariables_loop w result [] =
    (if StdinFault w then Inl (Wrapf ''process variables'' ReadFailure) else Inr (result, []))"
  by (simp add: processVariables_loop.simps [of w result "[]"] Scan_def)

lemma processVariables_loop_yes:
  "Scan s = Some (yes, rest) \<Longrightarrow>
   processVariables_loop w result s = processVariables_loop w result rest"
  by (simp add: processVariables_loop.simps [of w result s])

lemma processVariables_loop_no:
  "Scan s = Some (no, rest) \<Longrightarrow> processVariables_loop w result s = Inr (result, rest)"
  by (simp add: processVariables_loop.simps [of w result s])

lemma processVariables_loop_error:
  "Scan s = Some (ln, rest) \<Longrightarrow> ln \<noteq> yes \<Longrightarrow> ln \<noteq> no \<Longrightarrow>
   length (Split ln (CHR '' '')) \<noteq> 2 \<Longrightarrow>
   processVariables_loop w result s = Inl (Errorf ''incorrect number of tokens'')"
  by (simp add: processVariables_loop.simps [of w result s])

lemma processVariables_loop_pair:
  "Scan s = Some (ln, rest) \<Longrightarrow> ln \<noteq> yes \<Longrightarrow> ln \<noteq> no \<Longrightarrow>
   Split ln (CHR '' '') = [name, val] \<Longrightarrow>
   processVariables_loop w result s =
   processVariables_loop w
     (Some (AList.update name (format w val) (case result of None \<Rightarrow> [] | Some m \<Rightarrow> m))) rest"
  by (simp add: processVariables_loop.simps [of w result s])

lemma readCommands_loop_eof:
  "readCommands_loop w result [] =
    (if StdinFault w then Inl (Wrapf ''read commands'' ReadFailure) else Inr (result, []))"
  by (simp add: readCommands_loop.simps [of w result "[]"] Scan_def)

lemma readCommands_loop_yes:
  "Scan s = Some (yes, rest) \<Longrightarrow>
   readCommands_loop w result s = readCommands_loop w result rest"
  by (simp add: readCommands_loop.simps [of w result s])

lemma readCommands_loop_no:
  "Scan s = Some (no, rest) \<Longrightarrow> readCommands_loop w result s = Inr (result, rest)"
  by (simp add: readCommands_loop.simps [of w result s])

lemma readCommands_loop_error:
  "Scan s = Some (ln, rest) \<Longrightarrow> ln \<noteq> yes \<Longrightarrow> ln \<noteq> no \<Longrightarrow> Fields ln = [] \<Longrightarrow>
   readCommands_loop w result s = Inl (Errorf ''incorrect command declaration length'')"
  by (simp add: readCommands_loop.simps [of w result s])

lemma readCommands_loop_command:
  "Scan s = Some (ln, rest) \<Longrightarrow> ln \<noteq> yes \<Longrightarrow> ln \<noteq> no \<Longrightarrow> Fields ln = name # args \<Longrightarrow>
   readCommands_loop w result s =
   readCommands_loop w (result @ [\<lparr>Command.Name = name, Args = args\<rparr>]) rest"
  by (simp add: readCommands_loop.simps [of w result s])

subsection \<open>Lines and tokens of a session\<close>

lemma typed_Nil [simp]: "typed [] = []"
  by (simp add: typed_def)

lemma typed_Cons: "typed (l # ls) = l @ LF # typed ls"
  by (simp add: typed_def)

lemma Scan_line: "LF \<notin> set l \<Longrightarrow> Scan (l @ LF # r) = Some (dropCR l, r)"
proof -
  assume "LF \<notin> set l"
  then have "takeWhile (\<lambda>c. c \<noteq> LF) (l @ LF # r) = l"
    by (induction l) auto
  then show ?thesis
    by (simp add: Scan_def)
qed

lemma Scan_typed: "LF \<notin> set l \<Longrightarrow> Scan (typed (l # ls)) = Some (dropCR l, typed ls)"
  by (simp add: typed_Cons Scan_line)

lemma space_width_ascii:
  assumes "of_char c < (128::nat)"
  shows "space_width (c # cs) =
    (if c \<in> set [CHR 0x09, CHR 0x0A, CHR 0x0B, CHR 0x0C, CHR 0x0D, CHR 0x20] then 1 else 0)"
proof -
  from assms have lead: "c \<noteq> CHR 0xC2" "c \<noteq> CHR 0xE1" "c \<noteq> CHR 0xE2" "c \<noteq> CHR 0xE3"
    by auto
  show ?thesis
    by (simp add: space_width_def white_space_def lead)
qed

lemma processVariables_declined: "processVariables w (typed (no # ls)) = Inr (None, typed ls)"
  by (simp add: processVariables_def Scan_typed dropCR_def processVariables_loop_no)

subsection \<open>Tokens read by \<^verbatim>\<open>scan\<close>\<close>

lemma space_width_plain: "plain c \<Longrightarrow> space_width (c # cs) = 0"
  by (simp add: plain_def asciiSpace_def space_width_ascii)

lemma space_width_asciiSpace: "c \<in> set asciiSpace \<Longrightarrow> space_width (c # cs) = 1"
  by (auto simp: asciiSpace_def space_width_ascii)

lemma space_width_LF: "space_width (LF # cs) = 1"
  by (simp add: space_width_asciiSpace asciiSpace_def)

lemma token_plain: "list_all plain tok \<Longrightarrow> token (tok @ LF # r) = (tok, LF # r)"
  by (induction tok) (simp_all add: space_width_plain space_width_LF)

lemma SkipSpace_plain: "plain c \<Longrightarrow> SkipSpace (c # cs) = Inr (c # cs)"
  by (auto simp: space_width_plain plain_def asciiSpace_def)

lemma scan_token_line:
  assumes "tok \<noteq> []" and "list_all plain tok"
  shows "scan w (tok @ LF # r) = Inr (tok, r)"
proof -
  from assms obtain c cs where tok: "tok = c # cs" and c: "plain c"
    by (cases tok) auto
  then have "SkipSpace (tok @ LF # r) = Inr (tok @ LF # r)"
    using SkipSpace_plain [of c "cs @ LF # r"] by simp
  moreover from assms have "token (tok @ LF # r) = (tok, LF # r)"
    by (simp add: token_plain)
  ultimately show ?thesis
    using tok by (simp add: scan_def Scanf_s_def space_width_LF)
qed

lemma scan_typed:
  "tok \<noteq> [] \<Longrightarrow> list_all plain tok \<Longrightarrow> scan w (typed (tok # ls)) = Inr (tok, typed ls)"
  by (simp add: typed_Cons scan_token_line)

lemma token_no_space: "x \<in> set (fst (token s)) \<Longrightarrow> x \<notin> set asciiSpace"
proof (induction s rule: token.induct)
  case 1
  then show ?case by simp
next
  case (2 c cs)
  show ?case
  proof (cases "space_width (c # cs) = 0")
    case True
    then have "c \<notin> set asciiSpace"
      using space_width_asciiSpace [of c cs] by auto
    with True 2 show ?thesis by auto
  next
    case False
    with "2.prems" show ?thesis by simp
  qed
qed

lemma Scanf_s_token:
  assumes "Scanf_s w s = (n, None, temp, rest)"
  shows "\<exists>s'. temp = fst (token s')"
proof -
  from assms obtain s' where "SkipSpace s = Inr s'"
    by (auto simp: Scanf_s_def split: sum.splits)
  with assms have "temp = fst (token s')"
    by (auto simp: Scanf_s_def simp del: token.simps split: list.splits prod.splits if_splits)
  then show ?thesis ..
qed

lemma scan_token:
  assumes "scan w s = Inr (temp, rest)"
  shows "temp \<noteq> [] \<and> (\<forall>x \<in> set temp. x \<notin> set asciiSpace)"
proof -
  from assms obtain n where sf: "Scanf_s w s = (n, None, temp, rest)"
    by (auto simp: scan_def split: prod.splits option.splits if_splits)
  then obtain s' where "temp = fst (token s')"
    using Scanf_s_token by blast
  then have "\<forall>x \<in> set temp. x \<notin> set asciiSpace"
    using token_no_space by blast
  with assms show ?thesis
    by (simp add: scan_ok)
qed

subsection \<open>One turn of the file loop\<close>

lemma readFiles_loop_turn:
  assumes "scan w s = Inr (name, s1)" and "scan w s1 = Inr (path, s2)"
    and "scan w s2 = Inr (template, s3)" and "processVariables w s3 = Inr (local, s4)"
    and "scan w s4 = Inr (answer, s5)"
  shows "readFiles_loop w result s =
    (if answer = no
     then Inr (result @ [\<lparr>File.Name = name, Path = path, Template = template, Local = local\<rparr>], s5)
     else readFiles_loop w
       (result @ [\<lparr>File.Name = name, Path = path, Template = template, Local = local\<rparr>]) s5)"
  using assms by (simp add: readFiles_loop.simps [of w result s])

lemma readFiles_loop_error:
  "scan w s = Inl err \<Longrightarrow> readFiles_loop w result s = Inl (Wrapf ''file parameters'' err)"
  "scan w s = Inr (name, s1) \<Longrightarrow> scan w s1 = Inl err \<Longrightarrow>
   readFiles_loop w result s = Inl (Wrapf ''file parameters'' err)"
  "scan w s = Inr (name, s1) \<Longrightarrow> scan w s1 = Inr (path, s2) \<Longrightarrow> scan w s2 = Inl err \<Longrightarrow>
   readFiles_loop w result s = Inl (Wrapf ''file parameters'' err)"
  "scan w s = Inr (name, s1) \<Longrightarrow> scan w s1 = Inr (path, s2) \<Longrightarrow>
   scan w s2 = Inr (template, s3) \<Longrightarrow> processVariables w s3 = Inl err \<Longrightarrow>
   readFiles_loop w result s = Inl (Wrapf ''file parameters'' err)"
  "scan w s = Inr (name, s1) \<Longrightarrow> scan w s1 = Inr (path, s2) \<Longrightarrow>
   scan w s2 = Inr (template, s3) \<Longrightarrow> processVariables w s3 = Inr (local, s4) \<Longrightarrow>
   scan w s4 = Inl err \<Longrightarrow>
   readFiles_loop w result s = Inl (Wrapf ''file parameters'' err)"
  by (simp_all add: readFiles_loop.simps [of w result s])

text \<open>What the loop returns was either there before or was read in a full turn.\<close>

lemma readFiles_loop_invariant:
  assumes "readFiles_loop w acc s = Inr (fs, rest)"
    and "\<forall>f \<in> set acc. P f"
    and "\<And>s name s1 path s2 template s3 local s4.
          scan w s = Inr (name, s1) \<Longrightarrow> scan w s1 = Inr (path, s2) \<Longrightarrow>
          scan w s2 = Inr (template, s3) \<Longrightarrow> processVariables w s3 = Inr (local, s4) \<Longrightarrow>
          P \<lparr>File.Name = name, Path = path, Template = template, Local = local\<rparr>"
  shows "\<forall>f \<in> set fs. P f"
  using assms(1,2)
proof (induction "length s" arbitrary: s acc rule: less_induct)
  case less
  from less.prems(1) obtain name s1 where a1: "scan w s = Inr (name, s1)"
    by (cases "scan w s") (auto simp: readFiles_loop_error)
  with less.prems(1) obtain path s2 where a2: "scan w s1 = Inr (path, s2)"
    by (cases "scan w s1") (auto simp: readFiles_loop_error)
  with a1 less.prems(1) obtain template s3 where a3: "scan w s2 = Inr (template, s3)"
    by (cases "scan w s2") (auto simp: readFiles_loop_error)
  with a1 a2 less.prems(1) obtain local s4 where a4: "processVariables w s3 = Inr (local, s4)"
    by (cases "processVariables w s3") (auto simp: readFiles_loop_error)
  with a1 a2 a3 less.prems(1) obtain answer s5 where a5: "scan w s4 = Inr (answer, s5)"
    by (cases "scan w s4") (auto simp: readFiles_loop_error)
  let ?f = "\<lparr>File.Name = name, Path = path, Template = template, Local = local\<rparr>"
  have "P ?f"
    using a1 a2 a3 a4 by (rule assms(3))
  with less.prems(2) have acc': "\<forall>f \<in> set (acc @ [?f]). P f"
    by simp
  have sh: "length s5 < length s"
    using scan_shorter [OF a1] scan_shorter [OF a2] scan_shorter [OF a3] scan_shorter [OF a5]
      processVariables_loop_length [of w None s3 local s4] a4
    by (simp add: processVariables_def)
  show ?case
  proof (cases "answer = no")
    case True
    with less.prems(1) a1 a2 a3 a4 a5 have "fs = acc @ [?f]"
      by (simp add: readFiles_loop_turn)
    with acc' show ?thesis by simp
  next
    case False
    with less.prems(1) a1 a2 a3 a4 a5 have "readFiles_loop w (acc @ [?f]) s5 = Inr (fs, rest)"
      by (simp add: readFiles_loop_turn)
    then show ?thesis
      using less.hyps [OF sh] acc' by blast
  qed
qed

section \<open>Value type inference\<close>

lemma decimal_from_Nil [simp]: "decimal_from n [] = n"
  by (simp add: decimal_from_def)

lemma decimal_from_Cons [simp]:
  "decimal_from n (c # cs) = decimal_from (10 * n + (of_char c - 48)) cs"
  by (simp add: decimal_from_def)

lemma decimal_from_ge: "n \<le> decimal_from n ds"
proof (induction ds arbitrary: n)
  case Nil
  show ?case by simp
next
  case (Cons c cs)
  have "n \<le> 10 * n + (of_char c - 48)" by simp
  also have "\<dots> \<le> decimal_from (10 * n + (of_char c - 48)) cs" by (rule Cons.IH)
  finally show ?case by simp
qed

lemma ParseUint_loop_digits:
  "list_all digit ds \<Longrightarrow> decimal_from n ds \<le> maxUint64 \<Longrightarrow>
   ParseUint_loop n ds = (decimal_from n ds, None)"
proof (induction ds arbitrary: n)
  case Nil
  show ?case by simp
next
  case (Cons c cs)
  let ?n1 = "10 * n + (of_char c - 48)"
  from Cons.prems have dc: "digit c" and ds: "list_all digit cs"
    by simp_all
  from dc have d: "CHR ''0'' \<le> c \<and> c \<le> CHR ''9''"
    by (simp add: digit_def)
  have "?n1 \<le> decimal_from ?n1 cs" by (rule decimal_from_ge)
  with Cons.prems(2) have le: "?n1 \<le> maxUint64" by simp
  then have "n < maxUint64 div 10 + 1" by simp
  moreover from Cons.prems(2) ds have "ParseUint_loop ?n1 cs = (decimal_from ?n1 cs, None)"
    by (intro Cons.IH) simp_all
  ultimately show ?case using d le by (simp add: mult.commute)
qed

lemma ParseUint_digits:
  "ds \<noteq> [] \<Longrightarrow> list_all digit ds \<Longrightarrow> decimal_from 0 ds \<le> maxUint64 \<Longrightarrow>
   ParseUint ds = (decimal_from 0 ds, None)"
  by (simp add: ParseUint_def ParseUint_loop_digits)

lemma matches_integer_hd: "matches_integer v \<Longrightarrow> hd v = CHR ''-'' \<or> digit (hd v)"
  by (cases v) (auto simp: matches_integer_def split: if_splits)

lemma ParseBool_integer:
  assumes "matches_integer v" and "v \<noteq> ''0''" and "v \<noteq> ''1''"
  shows "ParseBool v = (False, Some SyntaxError)"
proof -
  have "hd v \<notin> set [CHR ''t'', CHR ''T'', CHR ''f'', CHR ''F'']"
    using matches_integer_hd [OF assms(1)] by (auto simp: digit_def less_eq_char_def)
  then have "v \<notin> set [''t'', ''T'', ''true'', ''TRUE'', ''True'']"
    and "v \<notin> set [''f'', ''F'', ''false'', ''FALSE'', ''False'']"
    by auto
  with assms(2,3) show ?thesis
    by (simp add: ParseBool_def)
qed

lemma sint_word_of_int:
  "- (2 ^ 63) \<le> k \<Longrightarrow> k < 2 ^ 63 \<Longrightarrow> sint (word_of_int k :: int64) = k"
  by (simp add: sint_sbintrunc' signed_take_bit_int_eq_self)

lemma sint_nat: "n < 2 ^ 63 \<Longrightarrow> sint (word_of_nat n :: int64) = int n"
  using sint_word_of_int [of "int n"] by simp

lemma sint_neg_nat: "n \<le> 2 ^ 63 \<Longrightarrow> sint (- word_of_nat n :: int64) = - int n"
  using sint_word_of_int [of "- int n"] by simp

lemma ParseInt_integer:
  assumes m: "matches_integer v"
    and lo: "- (2 ^ 63) \<le> integer_value v" and hi: "integer_value v < 2 ^ 63"
  shows "\<exists>i. ParseInt v = (i, None) \<and> sint i = integer_value v"
proof (cases "v \<noteq> [] \<and> hd v = CHR ''-''")
  case True
  with m have ds: "tl v \<noteq> []" "list_all digit (tl v)"
    by (simp_all add: matches_integer_def)
  from True lo have le: "decimal_from 0 (tl v) \<le> 2 ^ 63"
    by (simp add: integer_value_def)
  then have "decimal_from 0 (tl v) \<le> maxUint64"
    by (simp add: maxUint64_def)
  with ds have "ParseUint (tl v) = (decimal_from 0 (tl v), None)"
    by (simp add: ParseUint_digits)
  with True le have "ParseInt v = (- word_of_nat (decimal_from 0 (tl v)), None)"
    by (simp add: ParseInt_def)
  with True le show ?thesis
    by (simp add: integer_value_def sint_neg_nat)
next
  case False
  with m have ds: "v \<noteq> []" "list_all digit v"
    by (simp_all add: matches_integer_def)
  then have "digit (hd v)"
    by (cases v) simp_all
  then have hd: "hd v \<noteq> CHR ''-''" "hd v \<noteq> CHR ''+''"
    by (auto simp: digit_def less_eq_char_def)
  from False hi have lt: "decimal_from 0 v < 2 ^ 63"
    by (auto simp: integer_value_def split: if_splits)
  then have "decimal_from 0 v \<le> maxUint64"
    by (simp add: maxUint64_def)
  with ds have "ParseUint v = (decimal_from 0 v, None)"
    by (simp add: ParseUint_digits)
  with ds hd lt have "ParseInt v = (word_of_nat (decimal_from 0 v), None)"
    by (simp add: ParseInt_def)
  with False lt show ?thesis
    by (auto simp: integer_value_def sint_nat)
qed

text \<open>
  Claim C1, as the code has it. A token that matches \<^verbatim>\<open>^-?\d+$\<close> and whose value
  fits a signed 64-bit integer is stored as that integer, unless it is \<^verbatim>\<open>0\<close> or
  \<^verbatim>\<open>1\<close>: \<^verbatim>\<open>strconv.ParseBool\<close> is tried first and takes these two, so they are stored
  as the booleans false and true. The session \<^verbatim>\<open>x 1\<close>, \<^verbatim>\<open>n\<close> therefore gives the
  mapping from \<^verbatim>\<open>x\<close> to true.
\<close>

theorem format_integer_token:
  "(matches_integer v \<and> - (2 ^ 63) \<le> integer_value v \<and> integer_value v < 2 ^ 63
      \<and> v \<noteq> ''0'' \<and> v \<noteq> ''1''
    \<longrightarrow> (\<exists>i. format w v = VInt i \<and> sint i = integer_value v))
   \<and> format w ''0'' = VBool False
   \<and> format w ''1'' = VBool True
   \<and> processVariables w (typed [''x 1'', no]) = Inr (Some [(''x'', VBool True)], [])"
proof (intro conjI impI)
  assume a: "matches_integer v \<and> - (2 ^ 63) \<le> integer_value v \<and> integer_value v < 2 ^ 63
      \<and> v \<noteq> ''0'' \<and> v \<noteq> ''1''"
  then have "ParseBool v = (False, Some SyntaxError)"
    by (simp add: ParseBool_integer)
  moreover from a obtain i where "ParseInt v = (i, None)" "sint i = integer_value v"
    using ParseInt_integer [of v] by auto
  ultimately show "\<exists>i. format w v = VInt i \<and> sint i = integer_value v"
    by (simp add: format_def)
next
  show "format w ''0'' = VBool False"
    by (simp add: format_def ParseBool_def)
next
  show "format w ''1'' = VBool True"
    by (simp add: format_def ParseBool_def)
next
  have "format w ''1'' = VBool True"
    by (simp add: format_def ParseBool_def)
  then show "processVariables w (typed [''x 1'', no]) = Inr (Some [(''x'', VBool True)], [])"
    by (simp add: processVariables_def Scan_typed dropCR_def processVariables_loop_pair
        processVariables_loop_no)
qed

text \<open>The smallest 64-bit integer is such a token.\<close>

theorem format_integer_token_witness:
  "matches_integer ''-9223372036854775808''
   \<and> - (2 ^ 63) \<le> integer_value ''-9223372036854775808''
   \<and> integer_value ''-9223372036854775808'' < 2 ^ 63
   \<and> ''-9223372036854775808'' \<noteq> ''0'' \<and> ''-9223372036854775808'' \<noteq> ''1''
   \<and> (\<exists>i. format terminal ''-9223372036854775808'' = VInt i
          \<and> sint i = - 9223372036854775808)"
proof -
  have m: "matches_integer ''-9223372036854775808''"
    by (simp add: matches_integer_def digit_def less_eq_char_def)
  have v: "integer_value ''-9223372036854775808'' = - 9223372036854775808"
    by (simp add: integer_value_def)
  from m v format_integer_token [of "''-9223372036854775808''" terminal]
  show ?thesis by simp
qed

text \<open>
  Claim C1 as stated fails at the token \<^verbatim>\<open>1\<close>: it matches the pattern and fits 64 bits,
  and it is stored as a boolean.
\<close>

theorem integer_token_counterexample:
  "matches_integer ''1'' \<and> - (2 ^ 63) \<le> integer_value ''1'' \<and> integer_value ''1'' < 2 ^ 63
   \<and> format terminal ''1'' = VBool True
   \<and> processVariables terminal (typed [''x 1'', no]) = Inr (Some [(''x'', VBool True)], [])"
proof -
  have f1: "format terminal ''1'' = VBool True"
    by (simp add: format_def ParseBool_def)
  have "processVariables terminal (typed [''x 1'', no]) = Inr (Some [(''x'', VBool True)], [])"
    by (simp add: processVariables_def Scan_typed dropCR_def processVariables_loop_pair
        processVariables_loop_no f1)
  with f1 show ?thesis
    by (simp add: matches_integer_def digit_def less_eq_char_def integer_value_def)
qed

section \<open>The variable loop\<close>

lemma Split_no_sep: "sep \<notin> set s \<Longrightarrow> Split s sep = [s]"
  by (induction s) auto

lemma Split_at_first: "sep \<notin> set name \<Longrightarrow> Split (name @ sep # val) sep = name # Split val sep"
  by (induction name) auto

lemma length_Split: "length (Split s sep) = Suc (count_list s sep)"
proof (induction s)
  case Nil
  show ?case by simp
next
  case (Cons c cs)
  then have "Split cs sep \<noteq> []" by auto
  with Cons show ?case by (cases "Split cs sep") auto
qed

lemma Split_two:
  assumes "length (Split s sep) = 2"
  shows "\<exists>name val. s = name @ sep # val \<and> sep \<notin> set name \<and> sep \<notin> set val
           \<and> Split s sep = [name, val]"
proof -
  from assms have c1: "count_list s sep = 1"
    by (simp add: length_Split)
  then have "sep \<in> set s"
    by (metis count_list_0_iff zero_neq_one)
  then obtain name val where s: "s = name @ sep # val" and n: "sep \<notin> set name"
    by (auto dest: split_list_first)
  from c1 s n have "count_list val sep = 0"
    by (simp add: count_list_0_iff [THEN iffD2])
  then have v: "sep \<notin> set val"
    by (simp add: count_list_0_iff)
  from s n v have "Split s sep = [name, val]"
    by (simp add: Split_at_first Split_no_sep)
  with s n v show ?thesis by blast
qed

lemma file_turns_loop:
  "file_turns w s fs s' \<Longrightarrow> readFiles_loop w acc s = readFiles_loop w (acc @ fs) s'"
proof (induction arbitrary: acc rule: file_turns.induct)
  case (no_turn w s)
  show ?case by simp
next
  case (turn w s name s1 path s2 template s3 local s4 answer s5 fs s')
  have "readFiles_loop w acc s =
      readFiles_loop w
        (acc @ [\<lparr>File.Name = name, Path = path, Template = template, Local = local\<rparr>]) s5"
    using turn.hyps(1-6) by (simp add: readFiles_loop_turn)
  also have "\<dots> =
      readFiles_loop w
        ((acc @ [\<lparr>File.Name = name, Path = path, Template = template, Local = local\<rparr>]) @ fs) s'"
    by (rule turn.IH)
  finally show ?case by simp
qed

text \<open>
  Claim C2, as the code has it. The loop splits a line at each single space character
  (\<^verbatim>\<open>strings.Split(s.Text(), " ")\<close>), not at runs of white space. A line that is
  neither \<^verbatim>\<open>y\<close> nor \<^verbatim>\<open>n\<close> has one of two outcomes: it holds exactly one space, and
  then the part before it (the name) and the part after it (the value), either of which
  may be empty, are stored and the loop goes on; or it holds no space or several, and
  then the loop returns the error. The error ends the whole run with status 1 and without
  a document: as an error of the global collector; and as an error of the local collector
  of any file, which the file loop returns whatever it has collected and after any number
  of turns.
\<close>

theorem variable_line_outcomes:
  assumes "Scan s = Some (ln, rest)" and "ln \<noteq> yes" and "ln \<noteq> no"
  shows "((\<exists>name val. ln = name @ CHR '' '' # val
            \<and> CHR '' '' \<notin> set name \<and> CHR '' '' \<notin> set val
            \<and> processVariables_loop w result s =
                processVariables_loop w
                  (Some (AList.update name (format w val)
                     (case result of None \<Rightarrow> [] | Some m \<Rightarrow> m))) rest)
          \<or> (count_list ln (CHR '' '') \<noteq> 1
              \<and> processVariables_loop w result s = Inl (Errorf ''incorrect number of tokens'')))
       \<and> (processVariables w s0 = Inl err \<longrightarrow>
            main w path s0 = failed (Wrapf ''global variables'' err)
            \<and> exit_status (main w path s0) = 1 \<and> document (main w path s0) = None)
       \<and> (scan w t1 = Inr (fname, t2) \<and> scan w t2 = Inr (fpath, t3)
            \<and> scan w t3 = Inr (ftemplate, t4) \<and> processVariables w t4 = Inl err \<longrightarrow>
            readFiles_loop w acc t1 = Inl (Wrapf ''file parameters'' err))
       \<and> (readGlobals w t0 = Inr (g, tf) \<and> readFiles w tf = Inl err \<longrightarrow>
            main w path t0 = failed err
            \<and> exit_status (main w path t0) = 1 \<and> document (main w path t0) = None)
       \<and> (readGlobals w t0 = Inr (g, tf) \<and> file_turns w tf fs t1
            \<and> scan w t1 = Inr (fname, t2) \<and> scan w t2 = Inr (fpath, t3)
            \<and> scan w t3 = Inr (ftemplate, t4) \<and> processVariables w t4 = Inl err \<longrightarrow>
            readFiles w tf = Inl (Wrapf ''file parameters'' err)
            \<and> main w path t0 = failed (Wrapf ''file parameters'' err)
            \<and> exit_status (main w path t0) = 1 \<and> document (main w path t0) = None)"
proof (intro conjI impI)
  show "(\<exists>name val. ln = name @ CHR '' '' # val
            \<and> CHR '' '' \<notin> set name \<and> CHR '' '' \<notin> set val
            \<and> processVariables_loop w result s =
                processVariables_loop w
                  (Some (AList.update name (format w val)
                     (case result of None \<Rightarrow> [] | Some m \<Rightarrow> m))) rest)
          \<or> (count_list ln (CHR '' '') \<noteq> 1
              \<and> processVariables_loop w result s = Inl (Errorf ''incorrect number of tokens''))"
  proof (cases "length (Split ln (CHR '' '')) = 2")
    case True
    then obtain name val where "ln = name @ CHR '' '' # val" "CHR '' '' \<notin> set name"
      "CHR '' '' \<notin> set val" "Split ln (CHR '' '') = [name, val]"
      using Split_two by blast
    with assms show ?thesis
      by (auto simp: processVariables_loop_pair)
  next
    case False
    then have "count_list ln (CHR '' '') \<noteq> 1"
      by (simp add: length_Split)
    with False assms show ?thesis
      by (simp add: processVariables_loop_error)
  qed
next
  assume e: "processVariables w s0 = Inl err"
  then show "main w path s0 = failed (Wrapf ''global variables'' err)"
    by (simp add: main_def readGlobals_def)
  from e show "exit_status (main w path s0) = 1"
    by (simp add: main_def readGlobals_def failed_def)
  from e show "document (main w path s0) = None"
    by (simp add: main_def readGlobals_def failed_def)
next
  assume "scan w t1 = Inr (fname, t2) \<and> scan w t2 = Inr (fpath, t3)
            \<and> scan w t3 = Inr (ftemplate, t4) \<and> processVariables w t4 = Inl err"
  then show "readFiles_loop w acc t1 = Inl (Wrapf ''file parameters'' err)"
    by (simp add: readFiles_loop_error)
next
  assume a: "readGlobals w t0 = Inr (g, tf) \<and> readFiles w tf = Inl err"
  then show "main w path t0 = failed err"
    by (simp add: main_def)
  from a show "exit_status (main w path t0) = 1"
    by (simp add: main_def failed_def)
  from a show "document (main w path t0) = None"
    by (simp add: main_def failed_def)
next
  assume a: "readGlobals w t0 = Inr (g, tf) \<and> file_turns w tf fs t1
            \<and> scan w t1 = Inr (fname, t2) \<and> scan w t2 = Inr (fpath, t3)
            \<and> scan w t3 = Inr (ftemplate, t4) \<and> processVariables w t4 = Inl err"
  then have "readFiles_loop w ([] @ fs) t1 = Inl (Wrapf ''file parameters'' err)"
    by (simp add: readFiles_loop_error)
  with a show f: "readFiles w tf = Inl (Wrapf ''file parameters'' err)"
    using file_turns_loop [of w tf fs t1 "[]"] by (simp add: readFiles_def)
  with a show "main w path t0 = failed (Wrapf ''file parameters'' err)"
    by (simp add: main_def)
  from a f show "exit_status (main w path t0) = 1"
    by (simp add: main_def failed_def)
  from a f show "document (main w path t0) = None"
    by (simp add: main_def failed_def)
qed

text \<open>
  The line \<^verbatim>\<open>x 12\<close> is stored; the line \<^verbatim>\<open>a b c\<close> ends the run, as a global
  variable and as a local variable of the second file.
\<close>

lemma format_12: "format w ''12'' = VInt 12"
  by (simp add: format_def ParseBool_def ParseInt_def ParseUint_def maxUint64_def)

theorem variable_line_outcomes_witness:
  "Scan (typed [''x 12'', no]) = Some (''x 12'', typed [no])
   \<and> ''x 12'' \<noteq> yes \<and> ''x 12'' \<noteq> no
   \<and> count_list ''x 12'' (CHR '' '') = 1
   \<and> processVariables_loop terminal None (typed [''x 12'', no]) =
       processVariables_loop terminal (Some [(''x'', VInt 12)]) (typed [no])
   \<and> processVariables terminal (typed [''a b c'']) = Inl (Errorf ''incorrect number of tokens'')
   \<and> main terminal [] (typed [''a b c'']) =
       failed (Wrapf ''global variables'' (Errorf ''incorrect number of tokens''))
   \<and> readGlobals terminal
        (typed [no, ''a.txt'', ''/tmp'', ''t1'', no, yes, ''b'', ''c'', ''d'', ''a b c''])
       = Inr (None, typed [''a.txt'', ''/tmp'', ''t1'', no, yes, ''b'', ''c'', ''d'', ''a b c''])
   \<and> file_turns terminal (typed [''a.txt'', ''/tmp'', ''t1'', no, yes, ''b'', ''c'', ''d'', ''a b c''])
        [\<lparr>File.Name = ''a.txt'', Path = ''/tmp'', Template = ''t1'', Local = None\<rparr>]
        (typed [''b'', ''c'', ''d'', ''a b c''])
   \<and> scan terminal (typed [''b'', ''c'', ''d'', ''a b c'']) = Inr (''b'', typed [''c'', ''d'', ''a b c''])
   \<and> scan terminal (typed [''c'', ''d'', ''a b c'']) = Inr (''c'', typed [''d'', ''a b c''])
   \<and> scan terminal (typed [''d'', ''a b c'']) = Inr (''d'', typed [''a b c''])
   \<and> readFiles_loop terminal
        [\<lparr>File.Name = ''a.txt'', Path = ''/tmp'', Template = ''t1'', Local = None\<rparr>]
        (typed [''b'', ''c'', ''d'', ''a b c''])
       = Inl (Wrapf ''file parameters'' (Errorf ''incorrect number of tokens''))
   \<and> readFiles terminal (typed [''a.txt'', ''/tmp'', ''t1'', no, yes, ''b'', ''c'', ''d'', ''a b c''])
       = Inl (Wrapf ''file parameters'' (Errorf ''incorrect number of tokens''))
   \<and> main terminal []
        (typed [no, ''a.txt'', ''/tmp'', ''t1'', no, yes, ''b'', ''c'', ''d'', ''a b c''])
       = failed (Wrapf ''file parameters'' (Errorf ''incorrect number of tokens''))
   \<and> exit_status (main terminal []
        (typed [no, ''a.txt'', ''/tmp'', ''t1'', no, yes, ''b'', ''c'', ''d'', ''a b c''])) = 1
   \<and> document (main terminal []
        (typed [no, ''a.txt'', ''/tmp'', ''t1'', no, yes, ''b'', ''c'', ''d'', ''a b c''])) = None"
proof -
  let ?f = "\<lparr>File.Name = ''a.txt'', Path = ''/tmp'', Template = ''t1'', Local = None\<rparr>"
  have g: "readGlobals terminal
        (typed [no, ''a.txt'', ''/tmp'', ''t1'', no, yes, ''b'', ''c'', ''d'', ''a b c''])
       = Inr (None, typed [''a.txt'', ''/tmp'', ''t1'', no, yes, ''b'', ''c'', ''d'', ''a b c''])"
    by (simp add: readGlobals_def processVariables_declined)
  have a1: "scan terminal (typed [''a.txt'', ''/tmp'', ''t1'', no, yes, ''b'', ''c'', ''d'', ''a b c''])
       = Inr (''a.txt'', typed [''/tmp'', ''t1'', no, yes, ''b'', ''c'', ''d'', ''a b c''])"
    by (rule scan_typed) (simp_all add: plain_def asciiSpace_def)
  have a2: "scan terminal (typed [''/tmp'', ''t1'', no, yes, ''b'', ''c'', ''d'', ''a b c''])
       = Inr (''/tmp'', typed [''t1'', no, yes, ''b'', ''c'', ''d'', ''a b c''])"
    by (rule scan_typed) (simp_all add: plain_def asciiSpace_def)
  have a3: "scan terminal (typed [''t1'', no, yes, ''b'', ''c'', ''d'', ''a b c''])
       = Inr (''t1'', typed [no, yes, ''b'', ''c'', ''d'', ''a b c''])"
    by (rule scan_typed) (simp_all add: plain_def asciiSpace_def)
  have a4: "processVariables terminal (typed [no, yes, ''b'', ''c'', ''d'', ''a b c''])
       = Inr (None, typed [yes, ''b'', ''c'', ''d'', ''a b c''])"
    by (rule processVariables_declined)
  have a5: "scan terminal (typed [yes, ''b'', ''c'', ''d'', ''a b c''])
       = Inr (yes, typed [''b'', ''c'', ''d'', ''a b c''])"
    by (rule scan_typed) (simp_all add: plain_def asciiSpace_def)
  have ft: "file_turns terminal
        (typed [''a.txt'', ''/tmp'', ''t1'', no, yes, ''b'', ''c'', ''d'', ''a b c'']) [?f]
        (typed [''b'', ''c'', ''d'', ''a b c''])"
    by (rule file_turns.turn [OF a1 a2 a3 a4 a5 _ file_turns.no_turn]) simp
  have b1: "scan terminal (typed [''b'', ''c'', ''d'', ''a b c''])
       = Inr (''b'', typed [''c'', ''d'', ''a b c''])"
    by (rule scan_typed) (simp_all add: plain_def asciiSpace_def)
  have b2: "scan terminal (typed [''c'', ''d'', ''a b c'']) = Inr (''c'', typed [''d'', ''a b c''])"
    by (rule scan_typed) (simp_all add: plain_def asciiSpace_def)
  have b3: "scan terminal (typed [''d'', ''a b c'']) = Inr (''d'', typed [''a b c''])"
    by (rule scan_typed) (simp_all add: plain_def asciiSpace_def)
  have sc: "Scan (typed [''x 12'', no]) = Some (''x 12'', typed [no])"
    by (simp add: Scan_typed dropCR_def)
  have cnt: "count_list ''x 12'' (CHR '' '') = 1"
    by simp
  have bad: "processVariables terminal (typed [''a b c'']) = Inl (Errorf ''incorrect number of tokens'')"
    by (simp add: processVariables_def Scan_typed dropCR_def processVariables_loop_error)
  note inst = variable_line_outcomes [OF sc, of terminal None "typed [''a b c'']"
      "Errorf ''incorrect number of tokens''" "[]"
      "typed [''b'', ''c'', ''d'', ''a b c'']" "''b''" "typed [''c'', ''d'', ''a b c'']" "''c''"
      "typed [''d'', ''a b c'']" "''d''" "typed [''a b c'']" "[?f]"
      "typed [no, ''a.txt'', ''/tmp'', ''t1'', no, yes, ''b'', ''c'', ''d'', ''a b c'']" None
      "typed [''a.txt'', ''/tmp'', ''t1'', no, yes, ''b'', ''c'', ''d'', ''a b c'']" "[?f]"]
  from inst cnt have "\<exists>name val. ''x 12'' = name @ CHR '' '' # val
            \<and> CHR '' '' \<notin> set name \<and> CHR '' '' \<notin> set val
            \<and> processVariables_loop terminal None (typed [''x 12'', no]) =
                processVariables_loop terminal
                  (Some (AList.update name (format terminal val) [])) (typed [no])"
    by simp
  then obtain name val where nv: "''x 12'' = name @ CHR '' '' # val" "CHR '' '' \<notin> set name"
    and step: "processVariables_loop terminal None (typed [''x 12'', no]) =
                processVariables_loop terminal
                  (Some (AList.update name (format terminal val) [])) (typed [no])"
    by blast
  from nv have "name = ''x'' \<and> val = ''12''"
    by (cases name; cases "tl name") auto
  with step have st: "processVariables_loop terminal None (typed [''x 12'', no]) =
       processVariables_loop terminal (Some [(''x'', VInt 12)]) (typed [no])"
    by (simp add: format_12)
  from inst bad have gl: "main terminal [] (typed [''a b c'']) =
       failed (Wrapf ''global variables'' (Errorf ''incorrect number of tokens''))"
    by blast
  from inst b1 b2 b3 bad have lp: "readFiles_loop terminal [?f] (typed [''b'', ''c'', ''d'', ''a b c''])
       = Inl (Wrapf ''file parameters'' (Errorf ''incorrect number of tokens''))"
    by blast
  from inst g ft b1 b2 b3 bad
  have fin: "readFiles terminal
        (typed [''a.txt'', ''/tmp'', ''t1'', no, yes, ''b'', ''c'', ''d'', ''a b c''])
       = Inl (Wrapf ''file parameters'' (Errorf ''incorrect number of tokens''))
   \<and> main terminal []
        (typed [no, ''a.txt'', ''/tmp'', ''t1'', no, yes, ''b'', ''c'', ''d'', ''a b c''])
       = failed (Wrapf ''file parameters'' (Errorf ''incorrect number of tokens''))
   \<and> exit_status (main terminal []
        (typed [no, ''a.txt'', ''/tmp'', ''t1'', no, yes, ''b'', ''c'', ''d'', ''a b c''])) = 1
   \<and> document (main terminal []
        (typed [no, ''a.txt'', ''/tmp'', ''t1'', no, yes, ''b'', ''c'', ''d'', ''a b c''])) = None"
    by blast
  have ne: "''x 12'' \<noteq> yes \<and> ''x 12'' \<noteq> no"
    by simp
  from sc ne cnt st bad gl g ft b1 b2 b3 lp fin show ?thesis
    by blast
qed

text \<open>
  Claim C2 as stated fails at the line \<^verbatim>\<open>a\<close> followed by one space: it holds a single
  white-space separated token, and it is stored, with the empty string as its value,
  instead of ending the run.
\<close>

theorem variable_line_counterexample:
  "Fields ''a '' = [''a'']
   \<and> processVariables terminal (typed [''a '', no]) = Inr (Some [(''a'', VString [])], [])"
proof -
  have "Fields ''a '' = [''a'']"
    by (simp add: Fields_def space_width_ascii)
  moreover have "format terminal [] = VString []"
    by (simp add: format_def ParseBool_def ParseInt_def terminal_def ParseFloat_sessions_def)
  then have "processVariables terminal (typed [''a '', no]) = Inr (Some [(''a'', VString [])], [])"
    by (simp add: processVariables_def Scan_typed dropCR_def processVariables_loop_pair
      processVariables_loop_no)
  ultimately show ?thesis by simp
qed

section \<open>The file loop\<close>

text \<open>
  Claim C8. At the prompt for the next file the negative token ends the loop with the
  files read so far; the affirmative token starts the next turn; any other token is not
  examined further and starts the next turn as well, so nothing is added at the prompt and
  the loop does not stop.
\<close>

theorem next_file_answer:
  assumes "scan w s = Inr (name, s1)" and "scan w s1 = Inr (path, s2)"
    and "scan w s2 = Inr (template, s3)" and "processVariables w s3 = Inr (local, s4)"
    and "scan w s4 = Inr (answer, s5)"
  shows "(answer = no \<longrightarrow>
           readFiles_loop w result s =
             Inr (result @ [\<lparr>File.Name = name, Path = path, Template = template, Local = local\<rparr>],
                  s5))
       \<and> (answer = yes \<longrightarrow>
           readFiles_loop w result s =
             readFiles_loop w
               (result @ [\<lparr>File.Name = name, Path = path, Template = template, Local = local\<rparr>])
               s5)
       \<and> (answer \<noteq> yes \<and> answer \<noteq> no \<longrightarrow>
           readFiles_loop w result s =
             readFiles_loop w
               (result @ [\<lparr>File.Name = name, Path = path, Template = template, Local = local\<rparr>])
               s5)"
  using assms by (simp add: readFiles_loop_turn)

text \<open>
  The operator gives one file, answers \<^verbatim>\<open>maybe\<close>, and is asked for a second file.
\<close>

theorem next_file_answer_witness:
  "scan terminal (typed [''a.txt'', ''/tmp'', ''t1'', no, ''maybe'', ''b'', ''c'', ''d'', no, no])
     = Inr (''a.txt'', typed [''/tmp'', ''t1'', no, ''maybe'', ''b'', ''c'', ''d'', no, no])
   \<and> scan terminal (typed [''/tmp'', ''t1'', no, ''maybe'', ''b'', ''c'', ''d'', no, no])
     = Inr (''/tmp'', typed [''t1'', no, ''maybe'', ''b'', ''c'', ''d'', no, no])
   \<and> scan terminal (typed [''t1'', no, ''maybe'', ''b'', ''c'', ''d'', no, no])
     = Inr (''t1'', typed [no, ''maybe'', ''b'', ''c'', ''d'', no, no])
   \<and> processVariables terminal (typed [no, ''maybe'', ''b'', ''c'', ''d'', no, no])
     = Inr (None, typed [''maybe'', ''b'', ''c'', ''d'', no, no])
   \<and> scan terminal (typed [''maybe'', ''b'', ''c'', ''d'', no, no])
     = Inr (''maybe'', typed [''b'', ''c'', ''d'', no, no])
   \<and> ''maybe'' \<noteq> yes \<and> ''maybe'' \<noteq> no
   \<and> readFiles_loop terminal []
        (typed [''a.txt'', ''/tmp'', ''t1'', no, ''maybe'', ''b'', ''c'', ''d'', no, no])
     = readFiles_loop terminal
        [\<lparr>File.Name = ''a.txt'', Path = ''/tmp'', Template = ''t1'', Local = None\<rparr>]
        (typed [''b'', ''c'', ''d'', no, no])
   \<and> readFiles terminal
        (typed [''a.txt'', ''/tmp'', ''t1'', no, ''maybe'', ''b'', ''c'', ''d'', no, no])
     = Inr ([\<lparr>File.Name = ''a.txt'', Path = ''/tmp'', Template = ''t1'', Local = None\<rparr>,
             \<lparr>File.Name = ''b'', Path = ''c'', Template = ''d'', Local = None\<rparr>], [])"
proof -
  have a1: "scan terminal (typed [''a.txt'', ''/tmp'', ''t1'', no, ''maybe'', ''b'', ''c'', ''d'', no, no])
     = Inr (''a.txt'', typed [''/tmp'', ''t1'', no, ''maybe'', ''b'', ''c'', ''d'', no, no])"
    by (rule scan_typed) (simp_all add: plain_def asciiSpace_def)
  have a2: "scan terminal (typed [''/tmp'', ''t1'', no, ''maybe'', ''b'', ''c'', ''d'', no, no])
     = Inr (''/tmp'', typed [''t1'', no, ''maybe'', ''b'', ''c'', ''d'', no, no])"
    by (rule scan_typed) (simp_all add: plain_def asciiSpace_def)
  have a3: "scan terminal (typed [''t1'', no, ''maybe'', ''b'', ''c'', ''d'', no, no])
     = Inr (''t1'', typed [no, ''maybe'', ''b'', ''c'', ''d'', no, no])"
    by (rule scan_typed) (simp_all add: plain_def asciiSpace_def)
  have a4: "processVariables terminal (typed [no, ''maybe'', ''b'', ''c'', ''d'', no, no])
     = Inr (None, typed [''maybe'', ''b'', ''c'', ''d'', no, no])"
    by (rule processVariables_declined)
  have a5: "scan terminal (typed [''maybe'', ''b'', ''c'', ''d'', no, no])
     = Inr (''maybe'', typed [''b'', ''c'', ''d'', no, no])"
    by (rule scan_typed) (simp_all add: plain_def asciiSpace_def)
  have go: "readFiles_loop terminal []
        (typed [''a.txt'', ''/tmp'', ''t1'', no, ''maybe'', ''b'', ''c'', ''d'', no, no])
     = readFiles_loop terminal
        [\<lparr>File.Name = ''a.txt'', Path = ''/tmp'', Template = ''t1'', Local = None\<rparr>]
        (typed [''b'', ''c'', ''d'', no, no])"
    using next_file_answer [OF a1 a2 a3 a4 a5, of "[]"] by simp
  have b1: "scan terminal (typed [''b'', ''c'', ''d'', no, no]) = Inr (''b'', typed [''c'', ''d'', no, no])"
    by (rule scan_typed) (simp_all add: plain_def asciiSpace_def)
  have b2: "scan terminal (typed [''c'', ''d'', no, no]) = Inr (''c'', typed [''d'', no, no])"
    by (rule scan_typed) (simp_all add: plain_def asciiSpace_def)
  have b3: "scan terminal (typed [''d'', no, no]) = Inr (''d'', typed [no, no])"
    by (rule scan_typed) (simp_all add: plain_def asciiSpace_def)
  have b4: "processVariables terminal (typed [no, no]) = Inr (None, typed [no])"
    by (rule processVariables_declined)
  have b5: "scan terminal (typed [no]) = Inr (no, typed [])"
    by (rule scan_typed) (simp_all add: plain_def asciiSpace_def)
  have "readFiles_loop terminal
        [\<lparr>File.Name = ''a.txt'', Path = ''/tmp'', Template = ''t1'', Local = None\<rparr>]
        (typed [''b'', ''c'', ''d'', no, no])
     = Inr ([\<lparr>File.Name = ''a.txt'', Path = ''/tmp'', Template = ''t1'', Local = None\<rparr>,
             \<lparr>File.Name = ''b'', Path = ''c'', Template = ''d'', Local = None\<rparr>], [])"
    using next_file_answer [OF b1 b2 b3 b4 b5,
        of "[\<lparr>File.Name = ''a.txt'', Path = ''/tmp'', Template = ''t1'', Local = None\<rparr>]"]
    by simp
  with go have "readFiles terminal
        (typed [''a.txt'', ''/tmp'', ''t1'', no, ''maybe'', ''b'', ''c'', ''d'', no, no])
     = Inr ([\<lparr>File.Name = ''a.txt'', Path = ''/tmp'', Template = ''t1'', Local = None\<rparr>,
             \<lparr>File.Name = ''b'', Path = ''c'', Template = ''d'', Local = None\<rparr>], [])"
    by (simp add: readFiles_def)
  with a1 a2 a3 a4 a5 go show ?thesis
    by simp
qed

section \<open>The affirmative token in the variable loop\<close>

text \<open>
  Claim C7. A line \<^verbatim>\<open>y\<close> is skipped by the variable loop, also as the first line, so
  the collector returns what it returns on the input without that line.
\<close>

theorem affirmative_line_skipped:
  "processVariables w (yes @ LF # s) = processVariables w s
   \<and> processVariables_loop w result (yes @ LF # s) = processVariables_loop w result s
   \<and> readGlobals w (yes @ LF # s) = readGlobals w s"
proof -
  have "Scan (yes @ LF # s) = Some (yes, s)"
    using Scan_line [of yes s] by (simp add: dropCR_def)
  then have "processVariables_loop w r (yes @ LF # s) = processVariables_loop w r s" for r
    by (rule processVariables_loop_yes)
  then show ?thesis
    by (simp add: processVariables_def readGlobals_def)
qed

section \<open>The fields of a file\<close>

text \<open>
  Claim C6. Every file \<^verbatim>\<open>readFiles\<close> returns has a non-empty name, path and template,
  each a single token free of white space; a failed read of any of the three fields makes
  the loop return the error at once, whatever it has collected, and the run ends with
  status 1 and without a document.
\<close>

theorem file_fields_required:
  "(readFiles w s = Inr (fs, rest) \<longrightarrow>
      (\<forall>f \<in> set fs.
         File.Name f \<noteq> [] \<and> Path f \<noteq> [] \<and> Template f \<noteq> []
         \<and> set (File.Name f) \<inter> set asciiSpace = {}
         \<and> set (Path f) \<inter> set asciiSpace = {}
         \<and> set (Template f) \<inter> set asciiSpace = {}))
   \<and> (scan w s = Inl err \<longrightarrow>
        readFiles_loop w acc s = Inl (Wrapf ''file parameters'' err))
   \<and> (scan w s = Inr (name, s1) \<and> scan w s1 = Inl err \<longrightarrow>
        readFiles_loop w acc s = Inl (Wrapf ''file parameters'' err))
   \<and> (scan w s = Inr (name, s1) \<and> scan w s1 = Inr (path, s2) \<and> scan w s2 = Inl err \<longrightarrow>
        readFiles_loop w acc s = Inl (Wrapf ''file parameters'' err))
   \<and> (readGlobals w s0 = Inr (g, s) \<and> readFiles w s = Inl err \<longrightarrow>
        main w p s0 = failed err
        \<and> exit_status (main w p s0) = 1 \<and> document (main w p s0) = None)"
proof (intro conjI impI)
  assume r: "readFiles w s = Inr (fs, rest)"
  let ?P = "\<lambda>f. File.Name f \<noteq> [] \<and> Path f \<noteq> [] \<and> Template f \<noteq> []
         \<and> set (File.Name f) \<inter> set asciiSpace = {}
         \<and> set (Path f) \<inter> set asciiSpace = {}
         \<and> set (Template f) \<inter> set asciiSpace = {}"
  have "\<forall>f \<in> set fs. ?P f"
  proof (rule readFiles_loop_invariant [where P = ?P and acc = "[]"])
    from r show "readFiles_loop w [] s = Inr (fs, rest)"
      by (simp add: readFiles_def)
  next
    show "\<forall>f \<in> set []. ?P f" by simp
  next
    fix s name s1 path s2 template s3 local s4
    assume sc: "scan w s = Inr (name, s1)" "scan w s1 = Inr (path, s2)"
      "scan w s2 = Inr (template, s3)"
    have "name \<noteq> [] \<and> (\<forall>x \<in> set name. x \<notin> set asciiSpace)"
      "path \<noteq> [] \<and> (\<forall>x \<in> set path. x \<notin> set asciiSpace)"
      "template \<noteq> [] \<and> (\<forall>x \<in> set template. x \<notin> set asciiSpace)"
      using scan_token [OF sc(1)] scan_token [OF sc(2)] scan_token [OF sc(3)] by blast+
    then show "?P \<lparr>File.Name = name, Path = path, Template = template, Local = local\<rparr>"
      by auto
  qed
  then show "\<forall>f \<in> set fs.
         File.Name f \<noteq> [] \<and> Path f \<noteq> [] \<and> Template f \<noteq> []
         \<and> set (File.Name f) \<inter> set asciiSpace = {}
         \<and> set (Path f) \<inter> set asciiSpace = {}
         \<and> set (Template f) \<inter> set asciiSpace = {}" .
next
  assume "scan w s = Inl err"
  then show "readFiles_loop w acc s = Inl (Wrapf ''file parameters'' err)"
    by (rule readFiles_loop_error)
next
  assume "scan w s = Inr (name, s1) \<and> scan w s1 = Inl err"
  then show "readFiles_loop w acc s = Inl (Wrapf ''file parameters'' err)"
    by (simp add: readFiles_loop_error)
next
  assume "scan w s = Inr (name, s1) \<and> scan w s1 = Inr (path, s2) \<and> scan w s2 = Inl err"
  then show "readFiles_loop w acc s = Inl (Wrapf ''file parameters'' err)"
    by (simp add: readFiles_loop_error)
next
  assume a: "readGlobals w s0 = Inr (g, s) \<and> readFiles w s = Inl err"
  then show "main w p s0 = failed err"
    by (simp add: main_def)
  from a show "exit_status (main w p s0) = 1"
    by (simp add: main_def failed_def)
  from a show "document (main w p s0) = None"
    by (simp add: main_def failed_def)
qed


text \<open>
  A session with one file; a session that ends before the file name; one where the
  operator only presses return at the file path; one that ends before the template; and
  a run whose file collector fails.
\<close>

theorem file_fields_required_witness:
  "readFiles terminal (typed [''a.txt'', ''/tmp'', ''t1'', no, no])
     = Inr ([\<lparr>File.Name = ''a.txt'', Path = ''/tmp'', Template = ''t1'', Local = None\<rparr>], [])
   \<and> set ''a.txt'' \<inter> set asciiSpace = {}
   \<and> scan terminal [] = Inl UnexpectedEOF
   \<and> readFiles_loop terminal [] [] = Inl (Wrapf ''file parameters'' UnexpectedEOF)
   \<and> scan terminal (typed [''a.txt'', []]) = Inr (''a.txt'', typed [[]])
   \<and> scan terminal (typed [[]]) = Inl UnexpectedNewline
   \<and> readFiles_loop terminal [] (typed [''a.txt'', []])
       = Inl (Wrapf ''file parameters'' UnexpectedNewline)
   \<and> scan terminal (typed [''a.txt'', ''/tmp'']) = Inr (''a.txt'', typed [''/tmp''])
   \<and> scan terminal (typed [''/tmp'']) = Inr (''/tmp'', [])
   \<and> readFiles_loop terminal [] (typed [''a.txt'', ''/tmp''])
       = Inl (Wrapf ''file parameters'' UnexpectedEOF)
   \<and> readGlobals terminal (typed [no]) = Inr (None, [])
   \<and> readFiles terminal [] = Inl (Wrapf ''file parameters'' UnexpectedEOF)
   \<and> main terminal [] (typed [no]) = failed (Wrapf ''file parameters'' UnexpectedEOF)
   \<and> exit_status (main terminal [] (typed [no])) = 1
   \<and> document (main terminal [] (typed [no])) = None"
proof -
  have a1: "scan terminal (typed [''a.txt'', ''/tmp'', ''t1'', no, no])
      = Inr (''a.txt'', typed [''/tmp'', ''t1'', no, no])"
    by (rule scan_typed) (simp_all add: plain_def asciiSpace_def)
  have a2: "scan terminal (typed [''/tmp'', ''t1'', no, no]) = Inr (''/tmp'', typed [''t1'', no, no])"
    by (rule scan_typed) (simp_all add: plain_def asciiSpace_def)
  have a3: "scan terminal (typed [''t1'', no, no]) = Inr (''t1'', typed [no, no])"
    by (rule scan_typed) (simp_all add: plain_def asciiSpace_def)
  have a4: "processVariables terminal (typed [no, no]) = Inr (None, typed [no])"
    by (rule processVariables_declined)
  have a5: "scan terminal (typed [no]) = Inr (no, typed [])"
    by (rule scan_typed) (simp_all add: plain_def asciiSpace_def)
  have one: "readFiles terminal (typed [''a.txt'', ''/tmp'', ''t1'', no, no])
     = Inr ([\<lparr>File.Name = ''a.txt'', Path = ''/tmp'', Template = ''t1'', Local = None\<rparr>], [])"
    using readFiles_loop_turn [OF a1 a2 a3 a4 a5, of "[]"] by (simp add: readFiles_def)
  have eof: "scan terminal [] = Inl UnexpectedEOF"
    by (simp add: scan_def Scanf_s_def terminal_def)
  have b1: "scan terminal (typed [''a.txt'', []]) = Inr (''a.txt'', typed [[]])"
    by (rule scan_typed) (simp_all add: plain_def asciiSpace_def)
  have b2: "scan terminal (typed [[]]) = Inl UnexpectedNewline"
    by (simp add: scan_def Scanf_s_def typed_Cons)
  have c1: "scan terminal (typed [''a.txt'', ''/tmp'']) = Inr (''a.txt'', typed [''/tmp''])"
    by (rule scan_typed) (simp_all add: plain_def asciiSpace_def)
  have c2: "scan terminal (typed [''/tmp'']) = Inr (''/tmp'', [])"
    using scan_typed [of "''/tmp''" terminal "[]"] by (simp add: plain_def asciiSpace_def)
  have g: "readGlobals terminal (typed [no]) = Inr (None, [])"
    using processVariables_declined [of terminal "[]"] by (simp add: readGlobals_def)
  have f: "readFiles terminal [] = Inl (Wrapf ''file parameters'' UnexpectedEOF)"
    using eof by (simp add: readFiles_def readFiles_loop_error)
  from one
    file_fields_required [of terminal "typed [''a.txt'', ''/tmp'', ''t1'', no, no]"
      "[\<lparr>File.Name = ''a.txt'', Path = ''/tmp'', Template = ''t1'', Local = None\<rparr>]" "[]"
      UnexpectedEOF "[]" "[]" "[]" "[]" "[]" "[]" None "[]"]
  have i1: "set ''a.txt'' \<inter> set asciiSpace = {}"
    by simp
  from eof file_fields_required [of terminal "[]" "[]" "[]" UnexpectedEOF "[]" "[]" "[]" "[]" "[]"
      "[]" None "[]"]
  have i2: "readFiles_loop terminal [] [] = Inl (Wrapf ''file parameters'' UnexpectedEOF)"
    by simp
  from b1 b2
    file_fields_required [of terminal "typed [''a.txt'', []]" "[]" "[]" UnexpectedNewline "[]"
      "''a.txt''" "typed [[]]" "[]" "[]" "[]" None "[]"]
  have i3: "readFiles_loop terminal [] (typed [''a.txt'', []])
       = Inl (Wrapf ''file parameters'' UnexpectedNewline)"
    by simp
  from c1 c2 eof
    file_fields_required [of terminal "typed [''a.txt'', ''/tmp'']" "[]" "[]" UnexpectedEOF "[]"
      "''a.txt''" "typed [''/tmp'']" "''/tmp''" "[]" "[]" None "[]"]
  have i4: "readFiles_loop terminal [] (typed [''a.txt'', ''/tmp''])
       = Inl (Wrapf ''file parameters'' UnexpectedEOF)"
    by simp
  from g f
    file_fields_required [of terminal "[]" "[]" "[]" "Wrapf ''file parameters'' UnexpectedEOF"
      "[]" "[]" "[]" "[]" "[]" "typed [no]" None "[]"]
  have i5: "main terminal [] (typed [no]) = failed (Wrapf ''file parameters'' UnexpectedEOF)
      \<and> exit_status (main terminal [] (typed [no])) = 1
      \<and> document (main terminal [] (typed [no])) = None"
    by blast
  from one i1 eof i2 b1 b2 i3 c1 c2 i4 g f i5 show ?thesis
    by blast
qed

section \<open>The command loop\<close>

lemma Scan_typed_append:
  "LF \<notin> set l \<Longrightarrow> Scan (typed (l # ls) @ r) = Some (dropCR l, typed ls @ r)"
  by (simp add: typed_Cons Scan_line)

lemma Fields_yes: "Fields yes = [yes]"
  by (simp add: Fields_def space_width_ascii)

lemma Fields_no: "Fields no = [no]"
  by (simp add: Fields_def space_width_ascii)

text \<open>Lines that each hold a command, followed by the line \<^verbatim>\<open>n\<close>.\<close>

lemma readCommands_loop_lines:
  assumes "\<forall>l \<in> set ls. LF \<notin> set l \<and> dropCR l \<noteq> yes \<and> dropCR l \<noteq> no \<and> Fields (dropCR l) \<noteq> []"
  shows "readCommands_loop w acc (typed (ls @ [no]) @ r) =
    Inr (acc @ map (\<lambda>l. \<lparr>Command.Name = hd (Fields (dropCR l)),
                            Args = tl (Fields (dropCR l))\<rparr>) ls, r)"
  using assms
proof (induction ls arbitrary: acc)
  case Nil
  have "Scan (typed [no] @ r) = Some (no, r)"
    using Scan_typed_append [of no "[]" r] by (simp add: dropCR_def)
  then show ?case
    by (simp add: readCommands_loop_no)
next
  case (Cons l ls)
  from Cons.prems have l: "LF \<notin> set l" "dropCR l \<noteq> yes" "dropCR l \<noteq> no"
    and f: "Fields (dropCR l) \<noteq> []"
    by simp_all
  from l(1) have sc: "Scan (typed ((l # ls) @ [no]) @ r) = Some (dropCR l, typed (ls @ [no]) @ r)"
    using Scan_typed_append [of l "ls @ [no]" r] by simp
  from f have fs: "Fields (dropCR l) = hd (Fields (dropCR l)) # tl (Fields (dropCR l))"
    by simp
  have "readCommands_loop w acc (typed ((l # ls) @ [no]) @ r) =
      readCommands_loop w
        (acc @ [\<lparr>Command.Name = hd (Fields (dropCR l)), Args = tl (Fields (dropCR l))\<rparr>])
        (typed (ls @ [no]) @ r)"
    using sc l(2,3) fs by (rule readCommands_loop_command)
  also have "\<dots> = Inr ((acc @ [\<lparr>Command.Name = hd (Fields (dropCR l)),
                                    Args = tl (Fields (dropCR l))\<rparr>])
      @ map (\<lambda>l. \<lparr>Command.Name = hd (Fields (dropCR l)), Args = tl (Fields (dropCR l))\<rparr>) ls, r)"
    using Cons.prems by (intro Cons.IH) simp
  finally show ?case by simp
qed

subsection \<open>\<^verbatim>\<open>strings.Fields\<close> splits on white space\<close>

lemma take_length_le: "take (length r) b = r \<Longrightarrow> length r \<le> length b"
proof -
  assume "take (length r) b = r"
  then have "length (take (length r) b) = length r"
    by (rule arg_cong)
  then show ?thesis by simp
qed

lemma take_append_le: "n \<le> length xs \<Longrightarrow> take n (xs @ ys) = take n xs"
  by simp

lemma white_space_not_Nil: "r \<in> set white_space \<Longrightarrow> r \<noteq> []"
  by (auto simp: white_space_def)

text \<open>No white-space rune is the beginning of another one.\<close>

lemma white_space_prefix_free:
  "list_all (\<lambda>sp. list_all (\<lambda>r. take (length sp) r = sp \<longrightarrow> sp = r) white_space) white_space"
  by (simp add: white_space_def)

text \<open>No white-space rune starts with a byte that another one holds after its first.\<close>

lemma white_space_no_straddle:
  "list_all (\<lambda>r. list_all (\<lambda>r'. hd r' \<notin> set (tl r)) white_space) white_space"
  by (simp add: white_space_def)

lemma space_width_0_iff:
  "space_width s = 0 \<longleftrightarrow> \<not> list_ex (\<lambda>r. take (length r) s = r) white_space"
proof (cases "filter (\<lambda>sp. take (length sp) s = sp) white_space")
  case Nil
  then have "\<forall>r \<in> set white_space. take (length r) s \<noteq> r"
    by (simp add: filter_empty_conv)
  with Nil show ?thesis
    by (simp add: space_width_def list_ex_iff)
next
  case (Cons sp sps)
  then have "sp \<in> set (filter (\<lambda>sp. take (length sp) s = sp) white_space)"
    by simp
  then have sp: "sp \<in> set white_space" "take (length sp) s = sp"
    by simp_all
  then have "sp \<noteq> []"
    by (simp add: white_space_not_Nil)
  with Cons sp show ?thesis
    by (auto simp: space_width_def list_ex_iff)
qed

lemma space_width_rune:
  assumes "r \<in> set white_space"
  shows "space_width (r @ u) = length r"
proof -
  have "sp = r" if sp: "sp \<in> set white_space" "take (length sp) (r @ u) = sp" for sp
  proof (cases "length sp \<le> length r")
    case True
    with sp(2) have "take (length sp) r = sp"
      by (simp add: take_append_le)
    with sp(1) assms white_space_prefix_free show ?thesis
      by (auto simp: list_all_iff)
  next
    case False
    from sp(2) have "take (length r) (take (length sp) (r @ u)) = take (length r) sp"
      by simp
    with False have "take (length r) sp = r"
      by (simp add: min_def)
    with sp(1) assms white_space_prefix_free have "r = sp"
      by (auto simp: list_all_iff)
    then show ?thesis by simp
  qed
  note only = this
  define fl where "fl = filter (\<lambda>sp. take (length sp) (r @ u) = sp) white_space"
  from assms have "r \<in> set fl"
    by (simp add: fl_def)
  then obtain sp sps where f: "fl = sp # sps"
    by (cases fl) auto
  then have "sp \<in> set fl"
    by simp
  then have "sp \<in> set white_space" "take (length sp) (r @ u) = sp"
    unfolding fl_def by simp_all
  then have "sp = r"
    by (rule only)
  with f have "(case fl of [] \<Rightarrow> 0 | sp # _ \<Rightarrow> length sp) = length r"
    by simp
  then show ?thesis
    unfolding space_width_def fl_def .
qed

text \<open>\<^verbatim>\<open>strings.Fields\<close> in terms of the token at the head of the input.\<close>

lemma Fields_from_token:
  "Fields_from cur s =
    (if cur @ fst (token s) = [] then [] else [cur @ fst (token s)])
    @ (if snd (token s) = [] then []
       else Fields_from [] (drop (space_width (snd (token s))) (snd (token s))))"
proof (induction s arbitrary: cur)
  case Nil
  show ?case by simp
next
  case (Cons c cs)
  show ?case
  proof (cases "space_width (c # cs) = 0")
    case True
    then show ?thesis
      using Cons [of "cur @ [c]"] by simp
  next
    case False
    then show ?thesis by simp
  qed
qed

lemma token_positions:
  "fst (token s) = a @ b \<Longrightarrow> b \<noteq> [] \<Longrightarrow> space_width (b @ snd (token s)) = 0"
proof (induction s arbitrary: a)
  case Nil
  then show ?case by simp
next
  case (Cons c cs)
  show ?case
  proof (cases "space_width (c # cs) = 0")
    case True
    with Cons.prems have t: "c # fst (token cs) = a @ b"
      by simp
    show ?thesis
    proof (cases a)
      case Nil
      with t have "b = c # fst (token cs)" by simp
      with True show ?thesis
        by (simp add: token_append)
    next
      case (Cons x a')
      with t have "fst (token cs) = a' @ b" by simp
      with Cons.prems(2) True show ?thesis
        using Cons.IH [of a'] by simp
    qed
  next
    case False
    with Cons.prems show ?thesis by simp
  qed
qed

lemma token_rest: "snd (token s) = [] \<or> space_width (snd (token s)) \<noteq> 0"
  by (induction s) auto

lemma has_space_iff:
  "has_space t \<longleftrightarrow> (\<exists>a b. t = a @ b \<and> b \<noteq> [] \<and> list_ex (\<lambda>r. take (length r) b = r) white_space)"
proof (induction t)
  case Nil
  show ?case by simp
next
  case (Cons c cs)
  show ?case
  proof
    assume "has_space (c # cs)"
    then consider "list_ex (\<lambda>r. take (length r) (c # cs) = r) white_space" | "has_space cs"
      by auto
    then show "\<exists>a b. c # cs = a @ b \<and> b \<noteq> [] \<and> list_ex (\<lambda>r. take (length r) b = r) white_space"
    proof cases
      case 1
      then have "c # cs = [] @ (c # cs) \<and> c # cs \<noteq> []
          \<and> list_ex (\<lambda>r. take (length r) (c # cs) = r) white_space"
        by simp
      then show ?thesis by blast
    next
      case 2
      with Cons obtain a b where "cs = a @ b" "b \<noteq> []"
        "list_ex (\<lambda>r. take (length r) b = r) white_space"
        by blast
      then have "c # cs = (c # a) @ b \<and> b \<noteq> [] \<and> list_ex (\<lambda>r. take (length r) b = r) white_space"
        by simp
      then show ?thesis by blast
    qed
  next
    assume "\<exists>a b. c # cs = a @ b \<and> b \<noteq> [] \<and> list_ex (\<lambda>r. take (length r) b = r) white_space"
    then obtain a b where ab: "c # cs = a @ b" "b \<noteq> []"
      "list_ex (\<lambda>r. take (length r) b = r) white_space"
      by blast
    show "has_space (c # cs)"
    proof (cases a)
      case Nil
      with ab(1) have "b = c # cs" by simp
      with ab(3) show ?thesis by simp
    next
      case (Cons x a')
      with ab have "cs = a' @ b" by simp
      with ab(2,3) Cons.IH have "has_space cs" by blast
      then show ?thesis by simp
    qed
  qed
qed

lemma token_no_white_space: "\<not> has_space (fst (token s))"
proof
  assume "has_space (fst (token s))"
  then obtain a b r where ab: "fst (token s) = a @ b" "b \<noteq> []"
    and r: "r \<in> set white_space" "take (length r) b = r"
    by (auto simp: has_space_iff list_ex_iff)
  from r(2) have "length r \<le> length b"
    by (rule take_length_le)
  with r(2) have "take (length r) (b @ snd (token s)) = r"
    by (simp add: take_append_le)
  with r(1) have "space_width (b @ snd (token s)) \<noteq> 0"
    by (auto simp: space_width_0_iff list_ex_iff)
  with ab show False
    by (simp add: token_positions)
qed

lemma fields_of_rune:
  assumes "r \<in> set white_space" and "fields_of s ts"
  shows "fields_of (r @ s) ts"
  using assms(2)
proof (cases rule: fields_of.cases)
  case blank
  with assms(1) show ?thesis
    by (simp add: fields_of.blank space_run.rune)
next
  case (field u t rest ts')
  from assms(1) field(3) have "space_run (r @ u)"
    by (rule space_run.rune)
  then have "fields_of ((r @ u) @ t @ rest) (t # ts')"
    using field(4-7) by (rule fields_of.field)
  with field(1,2) show ?thesis by simp
qed

text \<open>The tokens \<^verbatim>\<open>strings.Fields\<close> returns are the tokens of the line.\<close>

lemma fields_of_Fields: "fields_of s (Fields s)"
proof (induction "length s" arbitrary: s rule: less_induct)
  case less
  show ?case
  proof (cases "fst (token s) = []")
    case True
    show ?thesis
    proof (cases s)
      case Nil
      then show ?thesis
        by (simp add: Fields_def fields_of.blank space_run.no_rune)
    next
      case (Cons c cs)
      with True have w: "space_width s \<noteq> 0"
        by (auto split: if_splits)
      then have "list_ex (\<lambda>r. take (length r) s = r) white_space"
        by (simp add: space_width_0_iff)
      then obtain r where r: "r \<in> set white_space" "take (length r) s = r"
        by (auto simp: list_ex_iff)
      have "take (length r) s @ drop (length r) s = s"
        by (rule append_take_drop_id)
      with r(2) have s: "s = r @ drop (length r) s"
        by simp
      from r(1) have "r \<noteq> []"
        by (rule white_space_not_Nil)
      moreover from r(2) have "length r \<le> length s"
        by (rule take_length_le)
      ultimately have "length (drop (length r) s) < length s"
        by (cases r) auto
      then have "fields_of (drop (length r) s) (Fields (drop (length r) s))"
        by (rule less)
      with r(1) have "fields_of (r @ drop (length r) s) (Fields (drop (length r) s))"
        by (rule fields_of_rune)
      moreover have "space_width (r @ drop (length r) s) = length r"
        using r(1) by (rule space_width_rune)
      with s have "space_width s = length r"
        by simp
      with Cons w have "Fields s = Fields (drop (length r) s)"
        by (simp add: Fields_def)
      ultimately show ?thesis
        using s by simp
    qed
  next
    case False
    let ?t = "fst (token s)" and ?r = "snd (token s)"
    have s: "s = ?t @ ?r"
      by (simp add: token_append)
    have "length ?t + length ?r = length s"
      by (rule token_length)
    with False have "length ?r < length s"
      by (cases ?t) auto
    then have IH: "fields_of ?r (Fields ?r)"
      by (rule less)
    have rest: "?r = [] \<or> list_ex (\<lambda>r. take (length r) ?r = r) white_space"
      using token_rest [of s] by (simp add: space_width_0_iff)
    have F: "Fields s = ?t # Fields ?r"
    proof (cases ?r)
      case Nil
      with False show ?thesis
        by (simp add: Fields_def Fields_from_token [of "[]" s])
    next
      case (Cons c cs)
      with token_rest [of s] have "space_width (c # cs) \<noteq> 0"
        by simp
      then have "Fields_from [] (c # cs) = Fields_from [] (drop (space_width (c # cs)) (c # cs))"
        by simp
      with False Cons show ?thesis
        by (simp add: Fields_def Fields_from_token [of "[]" s])
    qed
    have "fields_of ([] @ ?t @ ?r) (?t # Fields ?r)"
      using space_run.no_rune False token_no_white_space rest IH by (rule fields_of.field)
    with s F show ?thesis by simp
  qed
qed

lemma Fields_from_space_run: "space_run u \<Longrightarrow> Fields_from [] (u @ x) = Fields_from [] x"
proof (induction rule: space_run.induct)
  case no_rune
  show ?case by simp
next
  case (rune r u)
  from rune.hyps(1) have "r \<noteq> []"
    by (rule white_space_not_Nil)
  then obtain c cs where c: "r @ u @ x = c # cs"
    by (cases r) auto
  from rune.hyps(1) have w: "space_width (r @ u @ x) = length r"
    by (rule space_width_rune)
  with \<open>r \<noteq> []\<close> have "Fields_from [] (r @ u @ x) = Fields_from [] (drop (length r) (r @ u @ x))"
    unfolding c using c by simp
  with rune.IH show ?case by simp
qed

lemma token_word:
  assumes "\<not> has_space t"
    and "rest = [] \<or> list_ex (\<lambda>r. take (length r) rest = r) white_space"
  shows "token (t @ rest) = (t, rest)"
  using assms(1)
proof (induction t)
  case Nil
  show ?case
  proof (cases rest)
    case Nil
    then show ?thesis by simp
  next
    case (Cons c cs)
    with assms(2) have "space_width (c # cs) \<noteq> 0"
      by (simp add: space_width_0_iff)
    with Cons show ?thesis by simp
  qed
next
  case (Cons c cs)
  have "space_width (c # cs @ rest) = 0"
  proof (rule ccontr)
    assume "space_width (c # cs @ rest) \<noteq> 0"
    then obtain r where r: "r \<in> set white_space" "take (length r) (c # cs @ rest) = r"
      by (auto simp: space_width_0_iff list_ex_iff)
    show False
    proof (cases "length r \<le> length (c # cs)")
      case True
      with r(2) have "take (length r) (c # cs) = r"
        using take_append_le [of "length r" "c # cs" rest] by simp
      with r(1) have "has_space (c # cs)"
        by (auto simp: list_ex_iff)
      with Cons.prems show False by simp
    next
      case False
      then have l: "length (c # cs) < length r"
        by simp
      define k where "k = length r - length (c # cs)"
      from l have k: "0 < k"
        by (simp add: k_def)
      have "take (length r) ((c # cs) @ rest) = (c # cs) @ take k rest"
        using l by (simp add: k_def del: append_Cons)
      with r(2) have req: "r = c # cs @ take k rest"
        by simp
      then have "length r = length (c # cs) + length (take k rest)"
        by (metis length_append append_Cons)
      with l have ne: "take k rest \<noteq> []"
        by auto
      then have "rest \<noteq> []"
        by auto
      with assms(2) obtain r' where r': "r' \<in> set white_space" "take (length r') rest = r'"
        by (auto simp: list_ex_iff)
      from r'(1) have "0 < length r'"
        using white_space_not_Nil by auto
      then have "hd (take (length r') rest) = hd rest"
        by (rule hd_take)
      with r'(2) have "hd r' = hd rest"
        by simp
      moreover from k have "hd (take k rest) = hd rest"
        by (rule hd_take)
      moreover from ne have "hd (take k rest) \<in> set (take k rest)"
        by (rule hd_in_set)
      then have "hd (take k rest) \<in> set (cs @ take k rest)"
        by simp
      with req have "hd (take k rest) \<in> set (tl r)"
        by simp
      ultimately have "hd r' \<in> set (tl r)"
        by simp
      with r(1) r'(1) white_space_no_straddle show False
        by (auto simp: list_all_iff)
    qed
  qed
  moreover from Cons.prems have "\<not> has_space cs"
    by simp
  then have "token (cs @ rest) = (cs, rest)"
    by (rule Cons.IH)
  ultimately show ?case by simp
qed

text \<open>The tokens of a line are the tokens \<^verbatim>\<open>strings.Fields\<close> returns.\<close>

lemma Fields_fields_of: "fields_of s ts \<Longrightarrow> Fields s = ts"
proof (induction rule: fields_of.induct)
  case (blank u)
  then show ?case
    using Fields_from_space_run [of u "[]"] by (simp add: Fields_def)
next
  case (field u t rest ts)
  from field.hyps(1) have "Fields (u @ t @ rest) = Fields (t @ rest)"
    by (simp add: Fields_def Fields_from_space_run)
  also have "\<dots> = t # Fields rest"
  proof (cases rest)
    case Nil
    with field.hyps(2,3) show ?thesis
      using token_word [of t "[]"] by (simp add: Fields_def Fields_from_token [of "[]" t])
  next
    case (Cons c cs)
    with field.hyps(4) have "space_width (c # cs) \<noteq> 0"
      by (simp add: space_width_0_iff)
    then have "Fields_from [] (c # cs) = Fields_from [] (drop (space_width (c # cs)) (c # cs))"
      by simp
    with Cons have skip: "Fields_from [] rest = Fields_from [] (drop (space_width rest) rest)"
      by simp
    from field.hyps(3,4) have "token (t @ rest) = (t, rest)"
      by (rule token_word)
    with field.hyps(2) Cons
    have "Fields_from [] (t @ rest) = [t] @ Fields_from [] (drop (space_width rest) rest)"
      using Fields_from_token [of "[]" "t @ rest"] by simp
    with skip show ?thesis
      by (simp add: Fields_def)
  qed
  finally show ?case
    using field.IH by simp
qed

lemma fields_of_tokens:
  assumes "fields_of s ts" and "t \<in> set ts"
  shows "t \<noteq> [] \<and> set t \<inter> set asciiSpace = {}"
  using assms
proof (induction rule: fields_of.induct)
  case (blank u)
  then show ?case by simp
next
  case (field u t' rest ts)
  show ?case
  proof (cases "t = t'")
    case True
    have "x \<notin> set asciiSpace" if "x \<in> set t'" for x
    proof
      assume x: "x \<in> set asciiSpace"
      from that obtain a b where "t' = a @ x # b"
        by (auto dest: split_list)
      moreover from x have "[x] \<in> set white_space"
        by (auto simp: asciiSpace_def white_space_def)
      then have "\<exists>r \<in> set white_space. take (length r) (x # b) = r"
        by (intro bexI [of _ "[x]"]) simp_all
      then have "list_ex (\<lambda>r. take (length r) (x # b) = r) white_space"
        by (simp add: list_ex_iff)
      ultimately have "t' = a @ (x # b) \<and> x # b \<noteq> []
          \<and> list_ex (\<lambda>r. take (length r) (x # b) = r) white_space"
        by simp
      then have "has_space t'"
        unfolding has_space_iff by blast
      with field.hyps(3) show False by simp
    qed
    with True field.hyps(2) show ?thesis by auto
  next
    case False
    with field.prems field.IH show ?thesis by simp
  qed
qed

text \<open>
  Claim C5. A line of the command collector that is neither \<^verbatim>\<open>y\<close> nor \<^verbatim>\<open>n\<close> is split
  on white space: when the line consists of the tokens \<open>name # args\<close>, separated and
  surrounded by white space only, the loop appends the command with that name and those
  arguments, in their order, and goes on; a session of such lines ended by \<^verbatim>\<open>n\<close> returns
  the commands of its lines in order. The tokens of a line are non-empty and free of white
  space, every line has them, and they are determined by the line alone; they are what
  \<^verbatim>\<open>strings.Fields\<close> returns.
\<close>

theorem command_lines_collected:
  "(Scan s = Some (ln, rest) \<and> ln \<noteq> yes \<and> ln \<noteq> no \<and> fields_of ln (name # args) \<longrightarrow>
      readCommands_loop w acc s =
        readCommands_loop w (acc @ [\<lparr>Command.Name = name, Args = args\<rparr>]) rest)
   \<and> ((\<forall>l \<in> set ls. LF \<notin> set l \<and> dropCR l \<noteq> yes \<and> dropCR l \<noteq> no)
        \<and> list_all2 (\<lambda>l c. fields_of (dropCR l) (Command.Name c # Args c)) ls cmds \<longrightarrow>
      readCommands w (typed (ls @ [no]) @ r) = Inr (cmds, r))
   \<and> (fields_of ln ts \<longrightarrow> (\<forall>t \<in> set ts. t \<noteq> [] \<and> set t \<inter> set asciiSpace = {}))
   \<and> (fields_of ln ts \<and> fields_of ln ts' \<longrightarrow> ts = ts')
   \<and> (\<exists>ts. fields_of ln ts)
   \<and> fields_of ln ts = (Fields ln = ts)"
proof (intro conjI impI)
  assume a: "Scan s = Some (ln, rest) \<and> ln \<noteq> yes \<and> ln \<noteq> no \<and> fields_of ln (name # args)"
  then have "Fields ln = name # args"
    by (simp add: Fields_fields_of)
  with a show "readCommands_loop w acc s =
        readCommands_loop w (acc @ [\<lparr>Command.Name = name, Args = args\<rparr>]) rest"
    by (intro readCommands_loop_command) simp_all
next
  assume a: "(\<forall>l \<in> set ls. LF \<notin> set l \<and> dropCR l \<noteq> yes \<and> dropCR l \<noteq> no)
        \<and> list_all2 (\<lambda>l c. fields_of (dropCR l) (Command.Name c # Args c)) ls cmds"
  then have "list_all2 (\<lambda>l c. Fields (dropCR l) = Command.Name c # Args c) ls cmds"
    by (auto elim!: list_all2_mono simp: Fields_fields_of)
  then have "map (\<lambda>l. \<lparr>Command.Name = hd (Fields (dropCR l)),
                        Args = tl (Fields (dropCR l))\<rparr>) ls = cmds
      \<and> (\<forall>l \<in> set ls. Fields (dropCR l) \<noteq> [])"
    by (induction rule: list_all2_induct) simp_all
  with a show "readCommands w (typed (ls @ [no]) @ r) = Inr (cmds, r)"
    using readCommands_loop_lines [of ls w "[]" r] by (simp add: readCommands_def)
next
  assume "fields_of ln ts"
  then show "\<forall>t \<in> set ts. t \<noteq> [] \<and> set t \<inter> set asciiSpace = {}"
    using fields_of_tokens by blast
next
  assume "fields_of ln ts \<and> fields_of ln ts'"
  then have "Fields ln = ts" "Fields ln = ts'"
    by (simp_all add: Fields_fields_of)
  then show "ts = ts'" by simp
next
  show "\<exists>ts. fields_of ln ts"
    using fields_of_Fields by blast
next
  show "fields_of ln ts = (Fields ln = ts)"
    using fields_of_Fields [of ln] Fields_fields_of [of ln ts] by auto
qed

lemma Fields_ls: "Fields ''ls -a -l'' = [''ls'', ''-a'', ''-l'']"
  by (simp add: Fields_def space_width_ascii)

lemma Fields_tab: "Fields (''ls'' @ CHR 0x09 # ''-a'') = [''ls'', ''-a'']"
  by (simp add: Fields_def space_width_ascii)

text \<open>
  The session \<^verbatim>\<open>ls -a -l\<close>, \<^verbatim>\<open>n\<close>, and a line whose two tokens are separated by a
  tabulator.
\<close>

theorem command_lines_collected_witness:
  "Scan (typed [''ls -a -l'', no]) = Some (''ls -a -l'', typed [no])
   \<and> ''ls -a -l'' \<noteq> yes \<and> ''ls -a -l'' \<noteq> no
   \<and> fields_of ''ls -a -l'' [''ls'', ''-a'', ''-l'']
   \<and> readCommands_loop terminal [] (typed [''ls -a -l'', no]) =
       readCommands_loop terminal [\<lparr>Command.Name = ''ls'', Args = [''-a'', ''-l'']\<rparr>]
         (typed [no])
   \<and> LF \<notin> set ''ls -a -l'' \<and> dropCR ''ls -a -l'' = ''ls -a -l''
   \<and> readCommands terminal (typed [''ls -a -l'', no]) =
       Inr ([\<lparr>Command.Name = ''ls'', Args = [''-a'', ''-l'']\<rparr>], [])
   \<and> set ''ls'' \<inter> set asciiSpace = {} \<and> set ''-a'' \<inter> set asciiSpace = {}
   \<and> fields_of (''ls'' @ CHR 0x09 # ''-a'') [''ls'', ''-a'']
   \<and> LF \<notin> set (''ls'' @ CHR 0x09 # ''-a'')
   \<and> dropCR (''ls'' @ CHR 0x09 # ''-a'') = ''ls'' @ CHR 0x09 # ''-a''
   \<and> readCommands terminal (typed [''ls'' @ CHR 0x09 # ''-a'', no]) =
       Inr ([\<lparr>Command.Name = ''ls'', Args = [''-a'']\<rparr>], [])"
proof -
  have d: "dropCR ''ls -a -l'' = ''ls -a -l''"
    by (simp add: dropCR_def)
  have d': "dropCR (''ls'' @ CHR 0x09 # ''-a'') = ''ls'' @ CHR 0x09 # ''-a''"
    by (simp add: dropCR_def)
  have sc: "Scan (typed [''ls -a -l'', no]) = Some (''ls -a -l'', typed [no])"
    using Scan_typed [of "''ls -a -l''" "[no]"] by (simp add: d)
  have f: "fields_of ''ls -a -l'' [''ls'', ''-a'', ''-l'']"
    using fields_of_Fields [of "''ls -a -l''"] by (simp only: Fields_ls)
  have f': "fields_of (''ls'' @ CHR 0x09 # ''-a'') [''ls'', ''-a'']"
    using fields_of_Fields [of "''ls'' @ CHR 0x09 # ''-a''"] by (simp only: Fields_tab)
  have nl: "LF \<notin> set ''ls -a -l''" "LF \<notin> set (''ls'' @ CHR 0x09 # ''-a'')"
    by simp_all
  have ne: "''ls -a -l'' \<noteq> yes \<and> ''ls -a -l'' \<noteq> no"
    by simp
  note one = command_lines_collected [of "typed [''ls -a -l'', no]" "''ls -a -l''" "typed [no]"
      "''ls''" "[''-a'', ''-l'']" terminal "[]" "[''ls -a -l'']"
      "[\<lparr>Command.Name = ''ls'', Args = [''-a'', ''-l'']\<rparr>]" "[]"
      "[''ls'', ''-a'', ''-l'']" "[''ls'', ''-a'', ''-l'']"]
  note two = command_lines_collected [of "typed [''ls -a -l'', no]" "''ls'' @ CHR 0x09 # ''-a''"
      "typed [no]" "''ls''" "[''-a'']" terminal "[]" "[''ls'' @ CHR 0x09 # ''-a'']"
      "[\<lparr>Command.Name = ''ls'', Args = [''-a'']\<rparr>]" "[]"
      "[''ls'', ''-a'']" "[''ls'', ''-a'']"]
  from one sc ne f have step: "readCommands_loop terminal [] (typed [''ls -a -l'', no]) =
       readCommands_loop terminal [\<lparr>Command.Name = ''ls'', Args = [''-a'', ''-l'']\<rparr>]
         (typed [no])"
    by simp
  have h1: "(\<forall>l \<in> set [''ls -a -l'']. LF \<notin> set l \<and> dropCR l \<noteq> yes \<and> dropCR l \<noteq> no)
        \<and> list_all2 (\<lambda>l c. fields_of (dropCR l) (Command.Name c # Args c)) [''ls -a -l'']
            [\<lparr>Command.Name = ''ls'', Args = [''-a'', ''-l'']\<rparr>]"
    using f by (simp add: d)
  with one have all1: "readCommands terminal (typed [''ls -a -l'', no]) =
       Inr ([\<lparr>Command.Name = ''ls'', Args = [''-a'', ''-l'']\<rparr>], [])"
    by simp
  from one f have tok: "set ''ls'' \<inter> set asciiSpace = {} \<and> set ''-a'' \<inter> set asciiSpace = {}"
    by simp
  have h2: "(\<forall>l \<in> set [''ls'' @ CHR 0x09 # ''-a'']. LF \<notin> set l \<and> dropCR l \<noteq> yes \<and> dropCR l \<noteq> no)
        \<and> list_all2 (\<lambda>l c. fields_of (dropCR l) (Command.Name c # Args c))
            [''ls'' @ CHR 0x09 # ''-a''] [\<lparr>Command.Name = ''ls'', Args = [''-a'']\<rparr>]"
    using f' by (simp add: dropCR_def)
  with two have all2: "readCommands terminal (typed [''ls'' @ CHR 0x09 # ''-a'', no]) =
       Inr ([\<lparr>Command.Name = ''ls'', Args = [''-a'']\<rparr>], [])"
    by simp
  from sc ne f step nl d all1 tok f' d' all2 show ?thesis
    by blast
qed

text \<open>Lines in front of a line without tokens, none of them the line \<^verbatim>\<open>n\<close>.\<close>

lemma readCommands_loop_blank:
  assumes "\<forall>l \<in> set pre. LF \<notin> set l \<and> dropCR l \<noteq> no"
    and "Scan tail = Some (ln, rest)" and "Fields ln = []"
  shows "readCommands_loop w acc (typed pre @ tail) =
    Inl (Errorf ''incorrect command declaration length'')"
  using assms(1)
proof (induction pre arbitrary: acc)
  case Nil
  from assms(3) have "ln \<noteq> yes" "ln \<noteq> no"
    using Fields_yes Fields_no by auto
  with assms(2,3) show ?case
    by (simp add: readCommands_loop_error)
next
  case (Cons l pre)
  from Cons.prems have l: "LF \<notin> set l" "dropCR l \<noteq> no"
    by simp_all
  then have sc: "Scan (typed (l # pre) @ tail) = Some (dropCR l, typed pre @ tail)"
    by (simp add: Scan_typed_append)
  from Cons have IH: "readCommands_loop w acc' (typed pre @ tail) =
      Inl (Errorf ''incorrect command declaration length'')" for acc'
    by simp
  show ?case
  proof (cases "dropCR l = yes")
    case True
    with sc show ?thesis
      by (simp add: readCommands_loop_yes IH)
  next
    case False
    show ?thesis
    proof (cases "Fields (dropCR l)")
      case Nil
      with sc False l(2) show ?thesis
        by (simp add: readCommands_loop_error)
    next
      case (Cons name args)
      with sc False l(2) show ?thesis
        by (simp add: readCommands_loop_command IH)
    qed
  qed
qed

text \<open>
  Claim C4. When the command collector reads a line without tokens before any line
  \<^verbatim>\<open>n\<close>, it returns the error of a wrong declaration length; the run ends with status
  1 and writes no document.
\<close>

theorem blank_command_line_aborts:
  assumes "readGlobals w stdin = Inr (g, s1)" and "readFiles w s1 = Inr (fs, typed pre @ tail)"
    and "\<forall>l \<in> set pre. LF \<notin> set l \<and> dropCR l \<noteq> no"
    and "Scan tail = Some (ln, rest)" and "Fields ln = []"
  shows "readCommands w (typed pre @ tail) = Inl (Errorf ''incorrect command declaration length'')
    \<and> main w path stdin = failed (Errorf ''incorrect command declaration length'')
    \<and> exit_status (main w path stdin) = 1
    \<and> document (main w path stdin) = None"
proof -
  have "readCommands w (typed pre @ tail) = Inl (Errorf ''incorrect command declaration length'')"
    using readCommands_loop_blank [OF assms(3,4,5)] by (simp add: readCommands_def)
  with assms(1,2) show ?thesis
    by (simp add: main_def failed_def)
qed


text \<open>
  The operator declines global variables, gives one file, gives the command \<^verbatim>\<open>ls -a\<close>
  and then only presses return.
\<close>

theorem blank_command_line_aborts_witness:
  "readGlobals terminal (typed [no, ''a.txt'', ''/tmp'', ''t1'', no, no, ''ls -a'', [], no])
     = Inr (None, typed [''a.txt'', ''/tmp'', ''t1'', no, no, ''ls -a'', [], no])
   \<and> readFiles terminal (typed [''a.txt'', ''/tmp'', ''t1'', no, no, ''ls -a'', [], no])
     = Inr ([\<lparr>File.Name = ''a.txt'', Path = ''/tmp'', Template = ''t1'', Local = None\<rparr>],
            typed [''ls -a''] @ typed [[], no])
   \<and> LF \<notin> set ''ls -a'' \<and> dropCR ''ls -a'' \<noteq> no
   \<and> Scan (typed [[], no]) = Some ([], typed [no])
   \<and> Fields [] = []
   \<and> readCommands terminal (typed [''ls -a''] @ typed [[], no])
     = Inl (Errorf ''incorrect command declaration length'')
   \<and> main terminal ''out.json''
        (typed [no, ''a.txt'', ''/tmp'', ''t1'', no, no, ''ls -a'', [], no])
     = failed (Errorf ''incorrect command declaration length'')
   \<and> exit_status (main terminal ''out.json''
        (typed [no, ''a.txt'', ''/tmp'', ''t1'', no, no, ''ls -a'', [], no])) = 1
   \<and> document (main terminal ''out.json''
        (typed [no, ''a.txt'', ''/tmp'', ''t1'', no, no, ''ls -a'', [], no])) = None"
proof -
  have g: "readGlobals terminal (typed [no, ''a.txt'', ''/tmp'', ''t1'', no, no, ''ls -a'', [], no])
     = Inr (None, typed [''a.txt'', ''/tmp'', ''t1'', no, no, ''ls -a'', [], no])"
    by (simp add: readGlobals_def processVariables_declined)
  have a1: "scan terminal (typed [''a.txt'', ''/tmp'', ''t1'', no, no, ''ls -a'', [], no])
      = Inr (''a.txt'', typed [''/tmp'', ''t1'', no, no, ''ls -a'', [], no])"
    by (rule scan_typed) (simp_all add: plain_def asciiSpace_def)
  have a2: "scan terminal (typed [''/tmp'', ''t1'', no, no, ''ls -a'', [], no])
      = Inr (''/tmp'', typed [''t1'', no, no, ''ls -a'', [], no])"
    by (rule scan_typed) (simp_all add: plain_def asciiSpace_def)
  have a3: "scan terminal (typed [''t1'', no, no, ''ls -a'', [], no])
      = Inr (''t1'', typed [no, no, ''ls -a'', [], no])"
    by (rule scan_typed) (simp_all add: plain_def asciiSpace_def)
  have a4: "processVariables terminal (typed [no, no, ''ls -a'', [], no])
      = Inr (None, typed [no, ''ls -a'', [], no])"
    by (rule processVariables_declined)
  have a5: "scan terminal (typed [no, ''ls -a'', [], no]) = Inr (no, typed [''ls -a'', [], no])"
    by (rule scan_typed) (simp_all add: plain_def asciiSpace_def)
  have f: "readFiles terminal (typed [''a.txt'', ''/tmp'', ''t1'', no, no, ''ls -a'', [], no])
     = Inr ([\<lparr>File.Name = ''a.txt'', Path = ''/tmp'', Template = ''t1'', Local = None\<rparr>],
            typed [''ls -a''] @ typed [[], no])"
    using readFiles_loop_turn [OF a1 a2 a3 a4 a5, of "[]"] by (simp add: readFiles_def typed_Cons)
  have pre: "\<forall>l \<in> set [''ls -a'']. LF \<notin> set l \<and> dropCR l \<noteq> no"
    by (simp add: dropCR_def)
  have sc: "Scan (typed [[], no]) = Some ([], typed [no])"
    using Scan_typed [of "[]" "[no]"] by (simp add: dropCR_def)
  have fl: "Fields [] = []"
    by (simp add: Fields_def)
  have p1: "LF \<notin> set ''ls -a'' \<and> dropCR ''ls -a'' \<noteq> no"
    by (simp add: dropCR_def)
  from blank_command_line_aborts [OF g f pre sc fl, of "''out.json''"] g f p1 sc fl
  show ?thesis
    by blast
qed

section \<open>Producing the output\<close>

lemma readCommands_declined: "readCommands w (typed (no # ls)) = Inr ([], typed ls)"
  by (simp add: readCommands_def Scan_typed dropCR_def readCommands_loop_no)

lemma exit_status_deferred:
  "exit_status (deferred w path output) = (if path \<noteq> [] \<and> CreateFails w then 1 else 0)"
  by (simp add: deferred_def split: sum.splits)

text \<open>
  Claim C3, as the code has it. After the three collectors have succeeded, a failure to
  encode or to write the document is logged and the status is 0; a failure to create
  the output file is logged by \<^verbatim>\<open>log.Fatalln\<close>, which ends the process with
  status 1.
\<close>

theorem output_failures:
  assumes "readGlobals w stdin = Inr (g, s1)" and "readFiles w s1 = Inr (fs, s2)"
    and "readCommands w s2 = Inr (cs, s3)"
  shows "(path \<noteq> [] \<and> CreateFails w \<longrightarrow>
            exit_status (main w path stdin) = 1
            \<and> document (main w path stdin) = None
            \<and> logged (main w path stdin)
                = [LogFatalln ''failed to create output file:'' CreateFailure])
       \<and> (\<not> (path \<noteq> [] \<and> CreateFails w) \<longrightarrow> exit_status (main w path stdin) = 0)
       \<and> (\<not> (path \<noteq> [] \<and> CreateFails w)
            \<and> Encode w \<lparr>Global = g, Files = fs, Cmds = cs\<rparr> = Inl err \<longrightarrow>
            exit_status (main w path stdin) = 0
            \<and> document (main w path stdin) = None
            \<and> logged (main w path stdin) = [LogPrintf ''failed to produce output: '' err])"
proof -
  from assms have m: "main w path stdin = deferred w path \<lparr>Global = g, Files = fs, Cmds = cs\<rparr>"
    by (simp add: main_def)
  show ?thesis
    unfolding m by (auto simp: deferred_def split: sum.splits)
qed

lemma format_NaN: "format terminal ''NaN'' = VFloat 0x7FF8000000000001"
  by (simp add: format_def ParseBool_def ParseInt_def ParseUint_def terminal_def
      ParseFloat_sessions_def)

lemma IsInfOrNaN_NaN: "IsInfOrNaN 0x7FF8000000000001"
  by (simp add: IsInfOrNaN_def)


text \<open>
  Two runs with the output path \<^verbatim>\<open>out.json\<close>. In the first the global \<^verbatim>\<open>x\<close> is
  \<^verbatim>\<open>NaN\<close>, which the encoder refuses; in the second the file cannot be created.
\<close>

lemma session_NaN:
  "readGlobals terminal (typed [''x NaN'', no, ''a.txt'', ''/tmp'', ''t1'', no, no, no])
     = Inr (Some [(''x'', VFloat 0x7FF8000000000001)],
            typed [''a.txt'', ''/tmp'', ''t1'', no, no, no])"
  by (simp add: readGlobals_def processVariables_def Scan_typed dropCR_def
      processVariables_loop_pair processVariables_loop_no format_NaN)

lemma session_one_file:
  "readFiles w (typed [''a.txt'', ''/tmp'', ''t1'', no, no, no])
     = Inr ([\<lparr>File.Name = ''a.txt'', Path = ''/tmp'', Template = ''t1'', Local = None\<rparr>],
            typed [no])"
proof -
  have a1: "scan w (typed [''a.txt'', ''/tmp'', ''t1'', no, no, no])
      = Inr (''a.txt'', typed [''/tmp'', ''t1'', no, no, no])"
    by (rule scan_typed) (simp_all add: plain_def asciiSpace_def)
  have a2: "scan w (typed [''/tmp'', ''t1'', no, no, no]) = Inr (''/tmp'', typed [''t1'', no, no, no])"
    by (rule scan_typed) (simp_all add: plain_def asciiSpace_def)
  have a3: "scan w (typed [''t1'', no, no, no]) = Inr (''t1'', typed [no, no, no])"
    by (rule scan_typed) (simp_all add: plain_def asciiSpace_def)
  have a4: "processVariables w (typed [no, no, no]) = Inr (None, typed [no, no])"
    by (rule processVariables_declined)
  have a5: "scan w (typed [no, no]) = Inr (no, typed [no])"
    by (rule scan_typed) (simp_all add: plain_def asciiSpace_def)
  show ?thesis
    using readFiles_loop_turn [OF a1 a2 a3 a4 a5, of "[]"] by (simp add: readFiles_def)
qed

lemma Encode_NaN:
  "Encode terminal
     \<lparr>Global = Some [(''x'', VFloat 0x7FF8000000000001)],
      Files = [\<lparr>File.Name = ''a.txt'', Path = ''/tmp'', Template = ''t1'', Local = None\<rparr>],
      Cmds = []\<rparr> = Inl UnsupportedValue"
  by (simp add: Encode_def Marshal_def encode_map_def IsInfOrNaN_NaN)

theorem output_failures_witness:
  "readGlobals terminal (typed [''x NaN'', no, ''a.txt'', ''/tmp'', ''t1'', no, no, no])
     = Inr (Some [(''x'', VFloat 0x7FF8000000000001)],
            typed [''a.txt'', ''/tmp'', ''t1'', no, no, no])
   \<and> readFiles terminal (typed [''a.txt'', ''/tmp'', ''t1'', no, no, no])
     = Inr ([\<lparr>File.Name = ''a.txt'', Path = ''/tmp'', Template = ''t1'', Local = None\<rparr>],
            typed [no])
   \<and> readCommands terminal (typed [no]) = Inr ([], [])
   \<and> ''out.json'' \<noteq> [] \<and> \<not> CreateFails terminal
   \<and> Encode terminal
        \<lparr>Global = Some [(''x'', VFloat 0x7FF8000000000001)],
         Files = [\<lparr>File.Name = ''a.txt'', Path = ''/tmp'', Template = ''t1'', Local = None\<rparr>],
         Cmds = []\<rparr> = Inl UnsupportedValue
   \<and> exit_status (main terminal ''out.json''
        (typed [''x NaN'', no, ''a.txt'', ''/tmp'', ''t1'', no, no, no])) = 0
   \<and> document (main terminal ''out.json''
        (typed [''x NaN'', no, ''a.txt'', ''/tmp'', ''t1'', no, no, no])) = None
   \<and> logged (main terminal ''out.json''
        (typed [''x NaN'', no, ''a.txt'', ''/tmp'', ''t1'', no, no, no]))
       = [LogPrintf ''failed to produce output: '' UnsupportedValue]
   \<and> readGlobals terminal_no_create (typed [no, ''a.txt'', ''/tmp'', ''t1'', no, no, no])
     = Inr (None, typed [''a.txt'', ''/tmp'', ''t1'', no, no, no])
   \<and> readFiles terminal_no_create (typed [''a.txt'', ''/tmp'', ''t1'', no, no, no])
     = Inr ([\<lparr>File.Name = ''a.txt'', Path = ''/tmp'', Template = ''t1'', Local = None\<rparr>],
            typed [no])
   \<and> readCommands terminal_no_create (typed [no]) = Inr ([], [])
   \<and> CreateFails terminal_no_create
   \<and> exit_status (main terminal_no_create ''out.json''
        (typed [no, ''a.txt'', ''/tmp'', ''t1'', no, no, no])) = 1
   \<and> document (main terminal_no_create ''out.json''
        (typed [no, ''a.txt'', ''/tmp'', ''t1'', no, no, no])) = None"
proof -
  have c: "readCommands w (typed [no]) = Inr ([], [])" for w
    using readCommands_declined [of w "[]"] by simp
  have nc: "\<not> CreateFails terminal" "CreateFails terminal_no_create"
    by (simp_all add: terminal_def terminal_no_create_def)
  have g2: "readGlobals terminal_no_create (typed [no, ''a.txt'', ''/tmp'', ''t1'', no, no, no])
     = Inr (None, typed [''a.txt'', ''/tmp'', ''t1'', no, no, no])"
    by (simp add: readGlobals_def processVariables_declined)
  have p: "''out.json'' \<noteq> []"
    by simp
  note first = output_failures [OF session_NaN session_one_file c, of "''out.json''"
      UnsupportedValue]
  note second = output_failures [OF g2 session_one_file c, of "''out.json''" UnsupportedValue]
  from first nc(1) Encode_NaN
  have r1: "exit_status (main terminal ''out.json''
        (typed [''x NaN'', no, ''a.txt'', ''/tmp'', ''t1'', no, no, no])) = 0
   \<and> document (main terminal ''out.json''
        (typed [''x NaN'', no, ''a.txt'', ''/tmp'', ''t1'', no, no, no])) = None
   \<and> logged (main terminal ''out.json''
        (typed [''x NaN'', no, ''a.txt'', ''/tmp'', ''t1'', no, no, no]))
       = [LogPrintf ''failed to produce output: '' UnsupportedValue]"
    by blast
  from second nc(2) p
  have r2: "exit_status (main terminal_no_create ''out.json''
        (typed [no, ''a.txt'', ''/tmp'', ''t1'', no, no, no])) = 1
   \<and> document (main terminal_no_create ''out.json''
        (typed [no, ''a.txt'', ''/tmp'', ''t1'', no, no, no])) = None"
    by blast
  from session_NaN session_one_file [of terminal] session_one_file [of terminal_no_create]
    c [of terminal] c [of terminal_no_create] p nc Encode_NaN r1 g2 r2
  show ?thesis
    by blast
qed

text \<open>
  Claim C3 as stated fails when the output file cannot be created: the three collectors
  succeed and the process still exits with status 1.
\<close>

theorem output_failures_counterexample:
  "readGlobals terminal_no_create (typed [no, ''a.txt'', ''/tmp'', ''t1'', no, no, no])
     = Inr (None, typed [''a.txt'', ''/tmp'', ''t1'', no, no, no])
   \<and> readFiles terminal_no_create (typed [''a.txt'', ''/tmp'', ''t1'', no, no, no])
     = Inr ([\<lparr>File.Name = ''a.txt'', Path = ''/tmp'', Template = ''t1'', Local = None\<rparr>],
            typed [no])
   \<and> readCommands terminal_no_create (typed [no]) = Inr ([], [])
   \<and> exit_status (main terminal_no_create ''out.json''
        (typed [no, ''a.txt'', ''/tmp'', ''t1'', no, no, no])) = 1"
proof -
  have c: "readCommands terminal_no_create (typed [no]) = Inr ([], [])"
    using readCommands_declined [of terminal_no_create "[]"] by simp
  have g: "readGlobals terminal_no_create (typed [no, ''a.txt'', ''/tmp'', ''t1'', no, no, no])
     = Inr (None, typed [''a.txt'', ''/tmp'', ''t1'', no, no, no])"
    by (simp add: readGlobals_def processVariables_declined)
  have "main terminal_no_create ''out.json'' (typed [no, ''a.txt'', ''/tmp'', ''t1'', no, no, no])
      = deferred terminal_no_create ''out.json''
          \<lparr>Global = None,
           Files = [\<lparr>File.Name = ''a.txt'', Path = ''/tmp'', Template = ''t1'', Local = None\<rparr>],
           Cmds = []\<rparr>"
    by (simp add: main_def g session_one_file c)
  then have "exit_status (main terminal_no_create ''out.json''
        (typed [no, ''a.txt'', ''/tmp'', ''t1'', no, no, no])) = 1"
    by (simp add: exit_status_deferred terminal_no_create_def terminal_def)
  with g session_one_file [of terminal_no_create] c show ?thesis
    by blast
qed

section \<open>Empty parts of the document\<close>

text \<open>The variable loop returns an allocated map only with an entry in it.\<close>

lemma processVariables_loop_nil:
  assumes "processVariables_loop w result s = Inr (result', rest)"
    and "result \<noteq> Some []"
  shows "result' \<noteq> Some []"
  using assms
proof (induction "length s" arbitrary: s result rule: less_induct)
  case less
  show ?case
  proof (cases "Scan s")
    case None
    with less.prems show ?thesis
      by (auto simp: processVariables_loop.simps [of w result s] split: if_splits)
  next
    case (Some p)
    obtain ln s' where p: "p = (ln, s')" by (cases p)
    with Some have sc: "Scan s = Some (ln, s')" by simp
    then have sh: "length s' < length s"
      by (rule Scan_shorter)
    have upd: "Some (AList.update k v m) \<noteq> Some []" for k :: string and v :: any and m
      by (cases m) (auto simp: AList.update.simps)
    from less.prems(1) sc less.prems(2) upd less.hyps [OF sh] show ?thesis
      by (auto simp: processVariables_loop.simps [of w result s] split: if_splits)
  qed
qed

lemma Marshal_members:
  assumes "Marshal c = Inr j"
  shows "\<exists>g fs. encode_map (Global c) = Inr g \<and> encode_Files (Files c) = Inr fs
      \<and> j = JObject ([(''global'', g)]
            @ (if Files c = [] then [] else [(''files'', JArray fs)])
            @ (if Cmds c = [] then []
               else [(''commands'', JArray (map encode_Command (Cmds c)))]))"
  using assms by (auto simp: Marshal_def split: sum.splits)

text \<open>
  Claim C10. A file without local variables has the nil map as its \<^verbatim>\<open>Local\<close>, and
  its object carries the member \<^verbatim>\<open>local\<close> with the value \<^verbatim>\<open>null\<close>. The members
  \<^verbatim>\<open>files\<close> and \<^verbatim>\<open>commands\<close> of the document are present exactly when their
  sequences are not empty; the member \<^verbatim>\<open>global\<close> is always present.
\<close>

theorem empty_parts_of_document:
  "(Local f = None \<longrightarrow>
      encode_File f =
        Inr (JObject [(''name'', JString (File.Name f)), (''path'', JString (Path f)),
                      (''template'', JString (Template f)), (''local'', JNull)]))
   \<and> processVariables w (typed (no # ls)) = Inr (None, typed ls)
   \<and> (processVariables w s = Inr (result, rest) \<longrightarrow> result \<noteq> Some [])
   \<and> (Marshal c = Inr j \<longrightarrow>
        (\<exists>members. j = JObject members
           \<and> (''files'' \<in> fst ` set members) = (Files c \<noteq> [])
           \<and> (''commands'' \<in> fst ` set members) = (Cmds c \<noteq> [])
           \<and> ''global'' \<in> fst ` set members))"
proof (intro conjI impI)
  assume "Local f = None"
  then show "encode_File f =
        Inr (JObject [(''name'', JString (File.Name f)), (''path'', JString (Path f)),
                      (''template'', JString (Template f)), (''local'', JNull)])"
    by (simp add: encode_File_def encode_map_def)
next
  show "processVariables w (typed (no # ls)) = Inr (None, typed ls)"
    by (rule processVariables_declined)
next
  assume "processVariables w s = Inr (result, rest)"
  then show "result \<noteq> Some []"
    using processVariables_loop_nil [of w None s result rest] by (simp add: processVariables_def)
next
  assume "Marshal c = Inr j"
  then obtain g fs where j: "j = JObject ([(''global'', g)]
            @ (if Files c = [] then [] else [(''files'', JArray fs)])
            @ (if Cmds c = [] then []
               else [(''commands'', JArray (map encode_Command (Cmds c)))]))"
    using Marshal_members by blast
  show "\<exists>members. j = JObject members
           \<and> (''files'' \<in> fst ` set members) = (Files c \<noteq> [])
           \<and> (''commands'' \<in> fst ` set members) = (Cmds c \<noteq> [])
           \<and> ''global'' \<in> fst ` set members"
    unfolding j by (intro exI conjI, rule refl) auto
qed


text \<open>
  The operator declines global variables, gives one file without local variables and
  declines commands; the document goes to standard output.
\<close>

theorem empty_parts_of_document_witness:
  "Local \<lparr>File.Name = ''a.txt'', Path = ''/tmp'', Template = ''t1'', Local = None\<rparr> = None
   \<and> encode_File \<lparr>File.Name = ''a.txt'', Path = ''/tmp'', Template = ''t1'', Local = None\<rparr>
       = Inr (JObject [(''name'', JString ''a.txt''), (''path'', JString ''/tmp''),
                       (''template'', JString ''t1''), (''local'', JNull)])
   \<and> processVariables terminal (typed [no, no, no]) = Inr (None, typed [no, no])
   \<and> (None :: vars) \<noteq> Some []
   \<and> Marshal \<lparr>Global = None,
               Files = [\<lparr>File.Name = ''a.txt'', Path = ''/tmp'', Template = ''t1'', Local = None\<rparr>],
               Cmds = []\<rparr>
       = Inr (JObject [(''global'', JNull),
                       (''files'', JArray [JObject [(''name'', JString ''a.txt''),
                          (''path'', JString ''/tmp''), (''template'', JString ''t1''),
                          (''local'', JNull)]])])
   \<and> ''commands'' \<notin> fst ` set [(''global'', JNull),
                       (''files'', JArray [JObject [(''name'', JString ''a.txt''),
                          (''path'', JString ''/tmp''), (''template'', JString ''t1''),
                          (''local'', JNull)]])]
   \<and> main terminal [] (typed [no, ''a.txt'', ''/tmp'', ''t1'', no, no, no])
       = \<lparr>exit_status = 0,
          document = Some ([], JObject [(''global'', JNull),
                       (''files'', JArray [JObject [(''name'', JString ''a.txt''),
                          (''path'', JString ''/tmp''), (''template'', JString ''t1''),
                          (''local'', JNull)]])]),
          logged = []\<rparr>"
proof -
  let ?f = "\<lparr>File.Name = ''a.txt'', Path = ''/tmp'', Template = ''t1'', Local = None\<rparr>"
  let ?c = "\<lparr>Global = None, Files = [?f], Cmds = []\<rparr>"
  let ?j = "JObject [(''global'', JNull),
                       (''files'', JArray [JObject [(''name'', JString ''a.txt''),
                          (''path'', JString ''/tmp''), (''template'', JString ''t1''),
                          (''local'', JNull)]])]"
  note inst = empty_parts_of_document [of ?f terminal "[no, no]" "typed [no, no, no]" None
      "typed [no, no]" ?c ?j]
  have l: "Local ?f = None"
    by simp
  with inst have e: "encode_File ?f
       = Inr (JObject [(''name'', JString ''a.txt''), (''path'', JString ''/tmp''),
                       (''template'', JString ''t1''), (''local'', JNull)])"
    by simp
  from inst have p: "processVariables terminal (typed [no, no, no]) = Inr (None, typed [no, no])"
    by blast
  have m: "Marshal ?c = Inr ?j"
    by (simp add: Marshal_def encode_map_def e)
  have k: "''commands'' \<notin> fst ` set [(''global'', JNull),
                       (''files'', JArray [JObject [(''name'', JString ''a.txt''),
                          (''path'', JString ''/tmp''), (''template'', JString ''t1''),
                          (''local'', JNull)]])]"
    by simp
  have g: "readGlobals terminal (typed [no, ''a.txt'', ''/tmp'', ''t1'', no, no, no])
     = Inr (None, typed [''a.txt'', ''/tmp'', ''t1'', no, no, no])"
    by (simp add: readGlobals_def processVariables_declined)
  have c: "readCommands terminal (typed [no]) = Inr ([], [])"
    using readCommands_declined [of terminal "[]"] by simp
  have "main terminal [] (typed [no, ''a.txt'', ''/tmp'', ''t1'', no, no, no])
      = deferred terminal [] ?c"
    by (simp add: main_def g session_one_file c)
  also have "\<dots> = \<lparr>exit_status = 0, document = Some ([], ?j), logged = []\<rparr>"
    by (simp add: deferred_def Encode_def m terminal_def)
  finally have r: "main terminal [] (typed [no, ''a.txt'', ''/tmp'', ''t1'', no, no, no])
      = \<lparr>exit_status = 0, document = Some ([], ?j), logged = []\<rparr>" .
  from l e p m k r show ?thesis
    by simp
qed

section \<open>Reading the document back\<close>

subsection \<open>Scalars and maps\<close>

lemma encode_any_finite:
  assumes "finite_any v"
  shows "\<exists>j. encode_any v = Inr j \<and> decode_any j = Some (read_any v)"
  using assms by (cases v) simp_all

lemma encode_any_not_finite:
  assumes "\<not> finite_any v"
  shows "encode_any v = Inl UnsupportedValue"
  using assms by (cases v) simp_all

lemma encode_entries_not_finite:
  assumes "\<not> list_all (\<lambda>kv. finite_any (snd kv)) kvs"
  shows "encode_entries kvs = Inl UnsupportedValue"
  using assms
proof (induction kvs)
  case Nil
  then show ?case by simp
next
  case (Cons kv kvs)
  obtain k v where kv: "kv = (k, v)" by (cases kv)
  show ?case
  proof (cases "finite_any v")
    case False
    then show ?thesis
      by (simp add: kv encode_any_not_finite)
  next
    case True
    then obtain j where j: "encode_any v = Inr j"
      using encode_any_finite by blast
    from True Cons.prems have "\<not> list_all (\<lambda>kv. finite_any (snd kv)) kvs"
      by (simp add: kv)
    then have "encode_entries kvs = Inl UnsupportedValue"
      by (rule Cons.IH)
    then show ?thesis
      by (simp add: kv j)
  qed
qed

lemma update_fresh:
  assumes "k \<notin> fst ` set m"
  shows "AList.update k v m = m @ [(k, v)]"
  using assms by (induction m) auto

lemma encode_entries_finite:
  assumes "list_all (\<lambda>kv. finite_any (snd kv)) kvs" and "distinct (map fst kvs)"
  shows "\<exists>js. encode_entries kvs = Inr js
      \<and> (\<forall>m. fst ` set m \<inter> fst ` set kvs = {} \<longrightarrow>
            decode_members js m = Some (m @ map (\<lambda>(k, v). (k, read_any v)) kvs))"
  using assms
proof (induction kvs)
  case Nil
  then show ?case by simp
next
  case (Cons kv kvs)
  obtain k v where kv: "kv = (k, v)" by (cases kv)
  from Cons.prems have fin: "finite_any v" and fins: "list_all (\<lambda>kv. finite_any (snd kv)) kvs"
    and fresh: "k \<notin> fst ` set kvs" and dist: "distinct (map fst kvs)"
    by (simp_all add: kv)
  from fin obtain j where j: "encode_any v = Inr j" "decode_any j = Some (read_any v)"
    using encode_any_finite by blast
  from Cons.IH [OF fins dist] obtain js where js: "encode_entries kvs = Inr js"
    and dec: "\<And>m. fst ` set m \<inter> fst ` set kvs = {} \<Longrightarrow>
            decode_members js m = Some (m @ map (\<lambda>(k, v). (k, read_any v)) kvs)"
    by blast
  have enc: "encode_entries (kv # kvs) = Inr ((k, j) # js)"
    by (simp add: kv j js)
  have "decode_members ((k, j) # js) m
      = Some (m @ map (\<lambda>(k, v). (k, read_any v)) (kv # kvs))"
    if m: "fst ` set m \<inter> fst ` set (kv # kvs) = {}" for m
  proof -
    from m have km: "k \<notin> fst ` set m"
      by (auto simp: kv)
    from m fresh have "fst ` set (m @ [(k, read_any v)]) \<inter> fst ` set kvs = {}"
      by (auto simp: kv)
    then have "decode_members js (m @ [(k, read_any v)])
        = Some ((m @ [(k, read_any v)]) @ map (\<lambda>(k, v). (k, read_any v)) kvs)"
      by (rule dec)
    then show ?thesis
      by (simp add: kv j update_fresh [OF km])
  qed
  with enc show ?case
    by blast
qed

lemma distinct_map_insort_key:
  "distinct (map f (insort_key f x xs)) = (f x \<notin> f ` set xs \<and> distinct (map f xs))"
  by (induction xs) (auto simp: set_insort_key)

lemma distinct_map_sort_key: "distinct (map f (sort_key f xs)) = distinct (map f xs)"
  by (induction xs) (simp_all add: distinct_map_insort_key)

lemma list_all_sort_key: "list_all P (sort_key f xs) = list_all P xs"
  by (simp add: list_all_iff)

lemma encode_map_finite:
  assumes "finite_vars m" and "one_per_key m"
  shows "\<exists>j. encode_map m = Inr j \<and> decode_map j = Some (read_vars m)"
proof (cases m)
  case None
  then show ?thesis
    by (simp add: encode_map_def read_vars_def)
next
  case (Some kvs)
  with assms have "list_all (\<lambda>kv. finite_any (snd kv)) (sort_key fst kvs)"
    and "distinct (map fst (sort_key fst kvs))"
    by (simp_all add: finite_vars_def one_per_key_def list_all_sort_key distinct_map_sort_key)
  from encode_entries_finite [OF this] obtain js
    where js: "encode_entries (sort_key fst kvs) = Inr js"
      and dec: "decode_members js []
        = Some ([] @ map (\<lambda>(k, v). (k, read_any v)) (sort_key fst kvs))"
    by fastforce
  show ?thesis
    using dec by (simp add: Some encode_map_def js read_vars_def)
qed

lemma encode_map_not_finite:
  assumes "\<not> finite_vars m"
  shows "encode_map m = Inl UnsupportedValue"
proof (cases m)
  case None
  with assms show ?thesis
    by (simp add: finite_vars_def)
next
  case (Some kvs)
  with assms have "\<not> list_all (\<lambda>kv. finite_any (snd kv)) (sort_key fst kvs)"
    by (simp add: finite_vars_def list_all_sort_key)
  then have "encode_entries (sort_key fst kvs) = Inl UnsupportedValue"
    by (rule encode_entries_not_finite)
  then show ?thesis
    by (simp add: Some encode_map_def)
qed

lemma map_of_sort_key:
  assumes "distinct (map fst kvs)"
  shows "map_of (sort_key fst kvs) k = map_of kvs k"
proof (cases "map_of kvs k")
  case None
  then have "k \<notin> fst ` set (sort_key fst kvs)"
    by (simp add: map_of_eq_None_iff)
  then have "map_of (sort_key fst kvs) k = None"
    using map_of_eq_None_iff [of "sort_key fst kvs" k] by blast
  with None show ?thesis
    by simp
next
  case (Some v)
  then have "(k, v) \<in> set (sort_key fst kvs)"
    by (simp add: map_of_SomeD)
  moreover have "distinct (map fst (sort_key fst kvs))"
    using assms by (simp add: distinct_map_sort_key)
  ultimately show ?thesis
    using Some by simp
qed

lemma lookup_read_vars:
  assumes "one_per_key m"
  shows "lookup (read_vars m) k = map_option read_any (lookup m k)"
proof (cases m)
  case None
  then show ?thesis
    by (simp add: lookup_def read_vars_def)
next
  case (Some kvs)
  with assms have "distinct (map fst kvs)"
    by (simp add: one_per_key_def)
  then have "map_of (sort_key fst kvs) k = map_of kvs k"
    by (rule map_of_sort_key)
  then show ?thesis
    by (simp add: Some lookup_def read_vars_def map_of_map)
qed

lemma read_vars_None: "(read_vars m = None) = (m = None)"
  by (cases m) (simp_all add: read_vars_def)

subsection \<open>Files and commands\<close>

lemma encode_File_finite:
  assumes "finite_vars (Local f)" and "one_per_key (Local f)"
  shows "\<exists>j. encode_File f = Inr j \<and> decode_File j = Some (read_File f)"
proof -
  from encode_map_finite [OF assms] obtain l
    where l: "encode_map (Local f) = Inr l" "decode_map l = Some (read_vars (Local f))"
    by blast
  have "decode_File (JObject [(''name'', JString (File.Name f)), (''path'', JString (Path f)),
                      (''template'', JString (Template f)), (''local'', l)])
      = Some (read_File f)"
    by (simp add: decode_File_def member_named_def l read_File_def)
  then show ?thesis
    by (simp add: encode_File_def l)
qed

lemma encode_File_not_finite:
  assumes "\<not> finite_vars (Local f)"
  shows "encode_File f = Inl UnsupportedValue"
  using encode_map_not_finite [OF assms] by (simp add: encode_File_def)

lemma encode_Files_finite:
  assumes "list_all (\<lambda>f. finite_vars (Local f)) fs" and "list_all (\<lambda>f. one_per_key (Local f)) fs"
  shows "\<exists>js. encode_Files fs = Inr js \<and> those (map decode_File js) = Some (map read_File fs)
      \<and> (js = []) = (fs = [])"
  using assms
proof (induction fs)
  case Nil
  then show ?case by simp
next
  case (Cons f fs)
  then obtain js where js: "encode_Files fs = Inr js"
      "those (map decode_File js) = Some (map read_File fs)"
    by auto
  from Cons.prems obtain j where j: "encode_File f = Inr j" "decode_File j = Some (read_File f)"
    using encode_File_finite [of f] by auto
  show ?case
    by (simp add: j js)
qed

lemma encode_Files_not_finite:
  assumes "\<not> list_all (\<lambda>f. finite_vars (Local f)) fs"
    and "list_all (\<lambda>f. one_per_key (Local f)) fs"
  shows "encode_Files fs = Inl UnsupportedValue"
  using assms
proof (induction fs)
  case Nil
  then show ?case by simp
next
  case (Cons f fs)
  show ?case
  proof (cases "finite_vars (Local f)")
    case False
    then show ?thesis
      by (simp add: encode_File_not_finite)
  next
    case True
    with Cons.prems obtain j where j: "encode_File f = Inr j"
      using encode_File_finite [of f] by auto
    from True Cons have "encode_Files fs = Inl UnsupportedValue"
      by simp
    then show ?thesis
      by (simp add: j)
  qed
qed

lemma decode_strings_args: "those (map (decode_string \<circ> JString) xs) = Some xs"
  by (induction xs) simp_all

lemma decode_Command_encode: "decode_Command (encode_Command c) = Some c"
  by (simp add: decode_Command_def encode_Command_def member_named_def decode_strings_def
      decode_strings_args)

lemma decode_Commands_encode:
  "those (map (decode_Command \<circ> encode_Command) cs) = Some cs"
  by (induction cs) (simp_all add: decode_Command_encode)

subsection \<open>The document\<close>

lemma Marshal_Unmarshal:
  assumes "finite_Config c" and "one_per_key (Global c)"
    and "list_all (\<lambda>f. one_per_key (Local f)) (Files c)"
  shows "\<exists>j. Marshal c = Inr j \<and> Unmarshal j = Some (read_Config c)"
proof -
  from assms obtain g where g: "encode_map (Global c) = Inr g"
      "decode_map g = Some (read_vars (Global c))"
    using encode_map_finite [of "Global c"] by (auto simp: finite_Config_def)
  from assms obtain js where js: "encode_Files (Files c) = Inr js"
      "those (map decode_File js) = Some (map read_File (Files c))" "(js = []) = (Files c = [])"
    using encode_Files_finite [of "Files c"] by (auto simp: finite_Config_def)
  have m: "Marshal c = Inr (JObject
              ([(''global'', g)]
               @ (if Files c = [] then [] else [(''files'', JArray js)])
               @ (if Cmds c = [] then []
                  else [(''commands'', JArray (map encode_Command (Cmds c)))])))"
    by (simp add: Marshal_def g js)
  have "Unmarshal (JObject
              ([(''global'', g)]
               @ (if Files c = [] then [] else [(''files'', JArray js)])
               @ (if Cmds c = [] then []
                  else [(''commands'', JArray (map encode_Command (Cmds c)))])))
      = Some (read_Config c)"
    by (simp add: Unmarshal_def member_named_def g js decode_Files_def decode_Commands_def
        decode_Commands_encode read_Config_def)
  with m show ?thesis
    by simp
qed

lemma Marshal_not_finite:
  assumes "\<not> finite_Config c" and "one_per_key (Global c)"
    and "list_all (\<lambda>f. one_per_key (Local f)) (Files c)"
  shows "Marshal c = Inl UnsupportedValue"
proof (cases "finite_vars (Global c)")
  case False
  then show ?thesis
    by (simp add: Marshal_def encode_map_not_finite)
next
  case True
  with assms(2) obtain g where g: "encode_map (Global c) = Inr g"
    using encode_map_finite [of "Global c"] by auto
  from True assms(1) have "\<not> list_all (\<lambda>f. finite_vars (Local f)) (Files c)"
    by (simp add: finite_Config_def)
  then have "encode_Files (Files c) = Inl UnsupportedValue"
    using assms(3) by (rule encode_Files_not_finite)
  then show ?thesis
    by (simp add: Marshal_def g)
qed

lemma read_Files:
  assumes "list_all (\<lambda>f. one_per_key (Local f)) fs"
  shows "list_all2 (\<lambda>f f'. File.Name f' = File.Name f \<and> Path f' = Path f
            \<and> Template f' = Template f
            \<and> (Local f' = None) = (Local f = None)
            \<and> (\<forall>k. lookup (Local f') k = map_option read_any (lookup (Local f) k)))
          fs (map read_File fs)"
  using assms
  by (induction fs) (simp_all add: read_File_def read_vars_None lookup_read_vars)

subsection \<open>The maps of an assembled document\<close>

text \<open>The variable loop stores under a key once: a later line for the key replaces the value.\<close>

lemma processVariables_loop_keys:
  assumes "processVariables_loop w result s = Inr (result', rest)"
    and "one_per_key result"
  shows "one_per_key result'"
  using assms
proof (induction "length s" arbitrary: s result rule: less_induct)
  case less
  show ?case
  proof (cases "Scan s")
    case None
    with less.prems show ?thesis
      by (auto simp: processVariables_loop.simps [of w result s] split: if_splits)
  next
    case (Some p)
    obtain ln s' where p: "p = (ln, s')" by (cases p)
    with Some have sc: "Scan s = Some (ln, s')" by simp
    then have sh: "length s' < length s"
      by (rule Scan_shorter)
    have upd: "one_per_key (Some (AList.update k v (case result of None \<Rightarrow> [] | Some m \<Rightarrow> m)))"
      for k :: string and v :: any
      using less.prems(2) by (cases result) (simp_all add: one_per_key_def distinct_update)
    from less.prems(1) sc less.prems(2) upd less.hyps [OF sh] show ?thesis
      by (auto simp: processVariables_loop.simps [of w result s] split: if_splits)
  qed
qed

lemma processVariables_keys:
  assumes "processVariables w s = Inr (m, rest)"
  shows "one_per_key m"
  using processVariables_loop_keys [of w None s m rest] assms
  by (simp add: processVariables_def one_per_key_def)

lemma readGlobals_keys:
  assumes "readGlobals w s = Inr (g, rest)"
  shows "one_per_key g"
proof -
  from assms have "processVariables w s = Inr (g, rest)"
    by (auto simp: readGlobals_def split: sum.splits)
  then show ?thesis
    by (rule processVariables_keys)
qed

lemma readFiles_keys:
  assumes "readFiles w s = Inr (fs, rest)"
  shows "list_all (\<lambda>f. one_per_key (Local f)) fs"
proof -
  from assms have l: "readFiles_loop w [] s = Inr (fs, rest)"
    by (simp add: readFiles_def)
  have "\<forall>f \<in> set fs. one_per_key (Local f)"
  proof (rule readFiles_loop_invariant [where P = "\<lambda>f. one_per_key (Local f)" and acc = "[]"])
    show "readFiles_loop w [] s = Inr (fs, rest)"
      by (rule l)
    show "\<forall>f \<in> set []. one_per_key (Local f)"
      by simp
    show "one_per_key (Local \<lparr>File.Name = name, Path = path, Template = template, Local = local\<rparr>)"
      if "processVariables w s3 = Inr (local, s4)" for name path template local s3 s4
      using processVariables_keys [OF that] by simp
  qed
  then show ?thesis
    by (simp add: list_all_iff)
qed

text \<open>
  Claim C9, as the code has it. Take a document whose maps have one entry per key and
  whose strings are valid UTF-8. If all its floats are finite, the encoder gives a JSON
  value and the decoder reads from it the document \<open>read_Config c\<close>; if one of its floats
  is an infinity or a NaN, the encoder gives no JSON value but the error
  \<^verbatim>\<open>UnsupportedValue\<close>. The document read back has nil maps where the original has them,
  the same keys in the global map and in the local map of every file, the files in the
  same order with the same name, path and template, and the same commands; under a key
  a boolean, a float and a string are the same as in the original, and an integer has
  become the \<^verbatim>\<open>float64\<close> nearest to it. The maps of every document that the three
  collectors assemble have one entry per key.
\<close>

theorem round_trip:
  assumes "well_formed c"
  shows "(finite_Config c \<longrightarrow> (\<exists>j. Marshal c = Inr j \<and> Unmarshal j = Some (read_Config c)))
     \<and> (\<not> finite_Config c \<longrightarrow> Marshal c = Inl UnsupportedValue)
     \<and> (Global (read_Config c) = None) = (Global c = None)
     \<and> (\<forall>k. lookup (Global (read_Config c)) k = map_option read_any (lookup (Global c) k))
     \<and> list_all2 (\<lambda>f f'. File.Name f' = File.Name f \<and> Path f' = Path f
            \<and> Template f' = Template f
            \<and> (Local f' = None) = (Local f = None)
            \<and> (\<forall>k. lookup (Local f') k = map_option read_any (lookup (Local f) k)))
          (Files c) (Files (read_Config c))
     \<and> Cmds (read_Config c) = Cmds c
     \<and> read_any (VBool b) = VBool b
     \<and> read_any (VFloat x) = VFloat x
     \<and> read_any (VString t) = VString t
     \<and> read_any (VInt i) = VFloat (float64_of_int (sint i))
     \<and> (readGlobals w stdin = Inr (g, s1) \<and> readFiles w s1 = Inr (fs, s2) \<longrightarrow>
          one_per_key g \<and> list_all (\<lambda>f. one_per_key (Local f)) fs)"
proof -
  from assms have g: "one_per_key (Global c)"
    and fs: "list_all (\<lambda>f. one_per_key (Local f)) (Files c)"
    by (simp_all add: well_formed_def)
  have "finite_Config c \<longrightarrow> (\<exists>j. Marshal c = Inr j \<and> Unmarshal j = Some (read_Config c))"
    using Marshal_Unmarshal [OF _ g fs] by blast
  moreover have "\<not> finite_Config c \<longrightarrow> Marshal c = Inl UnsupportedValue"
    using Marshal_not_finite [OF _ g fs] by blast
  moreover have "(Global (read_Config c) = None) = (Global c = None)"
    by (simp add: read_Config_def read_vars_None)
  moreover have "\<forall>k. lookup (Global (read_Config c)) k
      = map_option read_any (lookup (Global c) k)"
    by (simp add: read_Config_def lookup_read_vars [OF g])
  moreover have "list_all2 (\<lambda>f f'. File.Name f' = File.Name f \<and> Path f' = Path f
            \<and> Template f' = Template f
            \<and> (Local f' = None) = (Local f = None)
            \<and> (\<forall>k. lookup (Local f') k = map_option read_any (lookup (Local f) k)))
          (Files c) (Files (read_Config c))"
    using read_Files [OF fs] by (simp add: read_Config_def)
  moreover have "Cmds (read_Config c) = Cmds c"
    by (simp add: read_Config_def)
  moreover have "readGlobals w stdin = Inr (g, s1) \<and> readFiles w s1 = Inr (fs, s2) \<longrightarrow>
          one_per_key g \<and> list_all (\<lambda>f. one_per_key (Local f)) fs"
    using readGlobals_keys [of w stdin g s1] readFiles_keys [of w s1 fs s2] by blast
  ultimately show ?thesis
    by simp
qed

lemma float64_of_int_12: "float64_of_int 12 = 0x4028000000000000"
proof -
  have "ilog2 12 = 3"
    by (simp add: ilog2.simps [of 12] ilog2.simps [of 6] ilog2.simps [of 3] ilog2.simps [of 1]
        ilog2.simps [of "Suc 0"])
  then show ?thesis
    by (simp add: float64_of_int_def Let_def)
qed

lemma float64_of_int_7: "float64_of_int 7 = 0x401C000000000000"
proof -
  have "ilog2 7 = 2"
    by (simp add: ilog2.simps [of 7] ilog2.simps [of 3] ilog2.simps [of 1]
        ilog2.simps [of "Suc 0"])
  then show ?thesis
    by (simp add: float64_of_int_def Let_def)
qed

lemma session_integer:
  "readGlobals terminal (typed [''x 12'', no, ''a.txt'', ''/tmp'', ''t1'', no, no, no])
     = Inr (Some [(''x'', VInt 12)], typed [''a.txt'', ''/tmp'', ''t1'', no, no, no])"
proof -
  have "format terminal ''12'' = VInt 12"
    by (simp add: format_def ParseBool_def ParseInt_def ParseUint_def maxUint64_def)
  then show ?thesis
    by (simp add: readGlobals_def processVariables_def Scan_typed dropCR_def
        processVariables_loop_pair processVariables_loop_no)
qed

text \<open>
  A document with a value of each type, a local variable and a command; a document with
  a NaN; and the session in which the operator types the global \<^verbatim>\<open>x 12\<close> and one file.
\<close>

theorem round_trip_witness:
  "well_formed
     \<lparr>Global = Some [(''x'', VInt 12), (''b'', VBool True), (''f'', VFloat 0x3FF8000000000000),
                     (''s'', VString ''hi'')],
      Files = [\<lparr>File.Name = ''a.txt'', Path = ''/tmp'', Template = ''t1'',
                Local = Some [(''k'', VInt 7)]\<rparr>],
      Cmds = [\<lparr>Command.Name = ''ls'', Args = [''-a'']\<rparr>]\<rparr>
   \<and> finite_Config
     \<lparr>Global = Some [(''x'', VInt 12), (''b'', VBool True), (''f'', VFloat 0x3FF8000000000000),
                     (''s'', VString ''hi'')],
      Files = [\<lparr>File.Name = ''a.txt'', Path = ''/tmp'', Template = ''t1'',
                Local = Some [(''k'', VInt 7)]\<rparr>],
      Cmds = [\<lparr>Command.Name = ''ls'', Args = [''-a'']\<rparr>]\<rparr>
   \<and> Marshal
     \<lparr>Global = Some [(''x'', VInt 12), (''b'', VBool True), (''f'', VFloat 0x3FF8000000000000),
                     (''s'', VString ''hi'')],
      Files = [\<lparr>File.Name = ''a.txt'', Path = ''/tmp'', Template = ''t1'',
                Local = Some [(''k'', VInt 7)]\<rparr>],
      Cmds = [\<lparr>Command.Name = ''ls'', Args = [''-a'']\<rparr>]\<rparr>
     = Inr (JObject
        [(''global'', JObject [(''b'', JBool True), (''f'', JFloat 0x3FF8000000000000),
                               (''s'', JString ''hi''), (''x'', JInt 12)]),
         (''files'', JArray [JObject [(''name'', JString ''a.txt''), (''path'', JString ''/tmp''),
                               (''template'', JString ''t1''),
                               (''local'', JObject [(''k'', JInt 7)])]]),
         (''commands'', JArray [JObject [(''name'', JString ''ls''),
                               (''args'', JArray [JString ''-a''])]])])
   \<and> Unmarshal (JObject
        [(''global'', JObject [(''b'', JBool True), (''f'', JFloat 0x3FF8000000000000),
                               (''s'', JString ''hi''), (''x'', JInt 12)]),
         (''files'', JArray [JObject [(''name'', JString ''a.txt''), (''path'', JString ''/tmp''),
                               (''template'', JString ''t1''),
                               (''local'', JObject [(''k'', JInt 7)])]]),
         (''commands'', JArray [JObject [(''name'', JString ''ls''),
                               (''args'', JArray [JString ''-a''])]])])
     = Some
     \<lparr>Global = Some [(''b'', VBool True), (''f'', VFloat 0x3FF8000000000000),
                     (''s'', VString ''hi''), (''x'', VFloat 0x4028000000000000)],
      Files = [\<lparr>File.Name = ''a.txt'', Path = ''/tmp'', Template = ''t1'',
                Local = Some [(''k'', VFloat 0x401C000000000000)]\<rparr>],
      Cmds = [\<lparr>Command.Name = ''ls'', Args = [''-a'']\<rparr>]\<rparr>
   \<and> well_formed
     \<lparr>Global = Some [(''x'', VFloat 0x7FF8000000000001)],
      Files = [\<lparr>File.Name = ''a.txt'', Path = ''/tmp'', Template = ''t1'', Local = None\<rparr>],
      Cmds = []\<rparr>
   \<and> \<not> finite_Config
     \<lparr>Global = Some [(''x'', VFloat 0x7FF8000000000001)],
      Files = [\<lparr>File.Name = ''a.txt'', Path = ''/tmp'', Template = ''t1'', Local = None\<rparr>],
      Cmds = []\<rparr>
   \<and> Marshal
     \<lparr>Global = Some [(''x'', VFloat 0x7FF8000000000001)],
      Files = [\<lparr>File.Name = ''a.txt'', Path = ''/tmp'', Template = ''t1'', Local = None\<rparr>],
      Cmds = []\<rparr> = Inl UnsupportedValue
   \<and> readGlobals terminal (typed [''x 12'', no, ''a.txt'', ''/tmp'', ''t1'', no, no, no])
     = Inr (Some [(''x'', VInt 12)], typed [''a.txt'', ''/tmp'', ''t1'', no, no, no])
   \<and> readFiles terminal (typed [''a.txt'', ''/tmp'', ''t1'', no, no, no])
     = Inr ([\<lparr>File.Name = ''a.txt'', Path = ''/tmp'', Template = ''t1'', Local = None\<rparr>],
            typed [no])
   \<and> one_per_key (Some [(''x'', VInt 12)])
   \<and> one_per_key (Local \<lparr>File.Name = ''a.txt'', Path = ''/tmp'', Template = ''t1'',
        Local = None\<rparr>)"
proof -
  define c where "c =
     \<lparr>Global = Some [(''x'', VInt 12), (''b'', VBool True), (''f'', VFloat 0x3FF8000000000000),
                     (''s'', VString ''hi'')],
      Files = [\<lparr>File.Name = ''a.txt'', Path = ''/tmp'', Template = ''t1'',
                Local = Some [(''k'', VInt 7)]\<rparr>],
      Cmds = [\<lparr>Command.Name = ''ls'', Args = [''-a'']\<rparr>]\<rparr>"
  define n where "n =
     \<lparr>Global = Some [(''x'', VFloat 0x7FF8000000000001)],
      Files = [\<lparr>File.Name = ''a.txt'', Path = ''/tmp'', Template = ''t1'', Local = None\<rparr>],
      Cmds = []\<rparr>"
  have wc: "well_formed c"
    by (simp add: c_def well_formed_def one_per_key_def valid_Config_def valid_vars_def)
  have wn: "well_formed n"
    by (simp add: n_def well_formed_def one_per_key_def valid_Config_def valid_vars_def)
  have fc: "finite_Config c"
    by (simp add: c_def finite_Config_def finite_vars_def IsInfOrNaN_def)
  have fn: "\<not> finite_Config n"
    by (simp add: n_def finite_Config_def finite_vars_def IsInfOrNaN_def)
  have mc: "Marshal c = Inr (JObject
        [(''global'', JObject [(''b'', JBool True), (''f'', JFloat 0x3FF8000000000000),
                               (''s'', JString ''hi''), (''x'', JInt 12)]),
         (''files'', JArray [JObject [(''name'', JString ''a.txt''), (''path'', JString ''/tmp''),
                               (''template'', JString ''t1''),
                               (''local'', JObject [(''k'', JInt 7)])]]),
         (''commands'', JArray [JObject [(''name'', JString ''ls''),
                               (''args'', JArray [JString ''-a''])]])])"
    by (simp add: c_def Marshal_def encode_map_def encode_File_def encode_Command_def
        IsInfOrNaN_def)
  have rc: "read_Config c =
     \<lparr>Global = Some [(''b'', VBool True), (''f'', VFloat 0x3FF8000000000000),
                     (''s'', VString ''hi''), (''x'', VFloat 0x4028000000000000)],
      Files = [\<lparr>File.Name = ''a.txt'', Path = ''/tmp'', Template = ''t1'',
                Local = Some [(''k'', VFloat 0x401C000000000000)]\<rparr>],
      Cmds = [\<lparr>Command.Name = ''ls'', Args = [''-a'']\<rparr>]\<rparr>"
    by (simp add: c_def read_Config_def read_File_def read_vars_def float64_of_int_12
        float64_of_int_7)
  note first = round_trip [OF wc, where b = True and x = 0 and t = "[]" and i = 0
      and w = terminal
      and stdin = "typed [''x 12'', no, ''a.txt'', ''/tmp'', ''t1'', no, no, no]"
      and g = "Some [(''x'', VInt 12)]"
      and ?s1.0 = "typed [''a.txt'', ''/tmp'', ''t1'', no, no, no]"
      and fs = "[\<lparr>File.Name = ''a.txt'', Path = ''/tmp'', Template = ''t1'', Local = None\<rparr>]"
      and ?s2.0 = "typed [no]"]
  note second = round_trip [OF wn, where b = True and x = 0 and t = "[]" and i = 0
      and w = terminal
      and stdin = "typed [''x 12'', no, ''a.txt'', ''/tmp'', ''t1'', no, no, no]"
      and g = "Some [(''x'', VInt 12)]"
      and ?s1.0 = "typed [''a.txt'', ''/tmp'', ''t1'', no, no, no]"
      and fs = "[\<lparr>File.Name = ''a.txt'', Path = ''/tmp'', Template = ''t1'', Local = None\<rparr>]"
      and ?s2.0 = "typed [no]"]
  from first fc mc rc have r1: "Unmarshal (JObject
        [(''global'', JObject [(''b'', JBool True), (''f'', JFloat 0x3FF8000000000000),
                               (''s'', JString ''hi''), (''x'', JInt 12)]),
         (''files'', JArray [JObject [(''name'', JString ''a.txt''), (''path'', JString ''/tmp''),
                               (''template'', JString ''t1''),
                               (''local'', JObject [(''k'', JInt 7)])]]),
         (''commands'', JArray [JObject [(''name'', JString ''ls''),
                               (''args'', JArray [JString ''-a''])]])])
     = Some
     \<lparr>Global = Some [(''b'', VBool True), (''f'', VFloat 0x3FF8000000000000),
                     (''s'', VString ''hi''), (''x'', VFloat 0x4028000000000000)],
      Files = [\<lparr>File.Name = ''a.txt'', Path = ''/tmp'', Template = ''t1'',
                Local = Some [(''k'', VFloat 0x401C000000000000)]\<rparr>],
      Cmds = [\<lparr>Command.Name = ''ls'', Args = [''-a'']\<rparr>]\<rparr>"
    by auto
  from second fn have r2: "Marshal n = Inl UnsupportedValue"
    by blast
  from first session_integer session_one_file [of terminal]
  have r3: "one_per_key (Some [(''x'', VInt 12)])
      \<and> one_per_key (Local \<lparr>File.Name = ''a.txt'', Path = ''/tmp'', Template = ''t1'',
        Local = None\<rparr>)"
    by simp
  from wc fc mc r1 wn fn r2 session_integer session_one_file [of terminal] r3
  show ?thesis
    unfolding c_def n_def by blast
qed

text \<open>
  Claim C9 as stated fails twice. In the first session the operator types the global
  \<^verbatim>\<open>x 12\<close>: the document holds the integer 12 under \<^verbatim>\<open>x\<close>, it is written, and read
  back it holds a float under \<^verbatim>\<open>x\<close>, so it is another document. In the second the
  operator types \<^verbatim>\<open>x NaN\<close>: the collectors succeed and the document has no JSON form.
\<close>

theorem round_trip_counterexample:
  "main terminal [] (typed [''x 12'', no, ''a.txt'', ''/tmp'', ''t1'', no, no, no])
     = \<lparr>exit_status = 0,
        document = Some ([], JObject [(''global'', JObject [(''x'', JInt 12)]),
                       (''files'', JArray [JObject [(''name'', JString ''a.txt''),
                          (''path'', JString ''/tmp''), (''template'', JString ''t1''),
                          (''local'', JNull)]])]),
        logged = []\<rparr>
   \<and> Marshal
       \<lparr>Global = Some [(''x'', VInt 12)],
        Files = [\<lparr>File.Name = ''a.txt'', Path = ''/tmp'', Template = ''t1'', Local = None\<rparr>],
        Cmds = []\<rparr>
     = Inr (JObject [(''global'', JObject [(''x'', JInt 12)]),
                       (''files'', JArray [JObject [(''name'', JString ''a.txt''),
                          (''path'', JString ''/tmp''), (''template'', JString ''t1''),
                          (''local'', JNull)]])])
   \<and> Unmarshal (JObject [(''global'', JObject [(''x'', JInt 12)]),
                       (''files'', JArray [JObject [(''name'', JString ''a.txt''),
                          (''path'', JString ''/tmp''), (''template'', JString ''t1''),
                          (''local'', JNull)]])])
     = Some
       \<lparr>Global = Some [(''x'', VFloat 0x4028000000000000)],
        Files = [\<lparr>File.Name = ''a.txt'', Path = ''/tmp'', Template = ''t1'', Local = None\<rparr>],
        Cmds = []\<rparr>
   \<and> \<lparr>Global = Some [(''x'', VFloat 0x4028000000000000)],
        Files = [\<lparr>File.Name = ''a.txt'', Path = ''/tmp'', Template = ''t1'', Local = None\<rparr>],
        Cmds = []\<rparr>
     \<noteq> \<lparr>Global = Some [(''x'', VInt 12)],
        Files = [\<lparr>File.Name = ''a.txt'', Path = ''/tmp'', Template = ''t1'', Local = None\<rparr>],
        Cmds = []\<rparr>
   \<and> decode_any (JInt 12) = decode_any (JFloat 0x4028000000000000)
   \<and> readGlobals terminal (typed [''x NaN'', no, ''a.txt'', ''/tmp'', ''t1'', no, no, no])
     = Inr (Some [(''x'', VFloat 0x7FF8000000000001)],
            typed [''a.txt'', ''/tmp'', ''t1'', no, no, no])
   \<and> readFiles terminal (typed [''a.txt'', ''/tmp'', ''t1'', no, no, no])
     = Inr ([\<lparr>File.Name = ''a.txt'', Path = ''/tmp'', Template = ''t1'', Local = None\<rparr>],
            typed [no])
   \<and> readCommands terminal (typed [no]) = Inr ([], [])
   \<and> Marshal
       \<lparr>Global = Some [(''x'', VFloat 0x7FF8000000000001)],
        Files = [\<lparr>File.Name = ''a.txt'', Path = ''/tmp'', Template = ''t1'', Local = None\<rparr>],
        Cmds = []\<rparr> = Inl UnsupportedValue"
proof -
  have c: "readCommands terminal (typed [no]) = Inr ([], [])"
    using readCommands_declined [of terminal "[]"] by simp
  have m: "Marshal
       \<lparr>Global = Some [(''x'', VInt 12)],
        Files = [\<lparr>File.Name = ''a.txt'', Path = ''/tmp'', Template = ''t1'', Local = None\<rparr>],
        Cmds = []\<rparr>
     = Inr (JObject [(''global'', JObject [(''x'', JInt 12)]),
                       (''files'', JArray [JObject [(''name'', JString ''a.txt''),
                          (''path'', JString ''/tmp''), (''template'', JString ''t1''),
                          (''local'', JNull)]])])"
    by (simp add: Marshal_def encode_map_def encode_File_def)
  have r: "main terminal [] (typed [''x 12'', no, ''a.txt'', ''/tmp'', ''t1'', no, no, no])
     = \<lparr>exit_status = 0,
        document = Some ([], JObject [(''global'', JObject [(''x'', JInt 12)]),
                       (''files'', JArray [JObject [(''name'', JString ''a.txt''),
                          (''path'', JString ''/tmp''), (''template'', JString ''t1''),
                          (''local'', JNull)]])]),
        logged = []\<rparr>"
  proof -
    have "main terminal [] (typed [''x 12'', no, ''a.txt'', ''/tmp'', ''t1'', no, no, no])
        = deferred terminal []
            \<lparr>Global = Some [(''x'', VInt 12)],
             Files = [\<lparr>File.Name = ''a.txt'', Path = ''/tmp'', Template = ''t1'',
                       Local = None\<rparr>],
             Cmds = []\<rparr>"
      by (simp add: main_def session_integer session_one_file c)
    then show ?thesis
      by (simp add: deferred_def Encode_def m) (simp add: terminal_def)
  qed
  have u: "Unmarshal (JObject [(''global'', JObject [(''x'', JInt 12)]),
                       (''files'', JArray [JObject [(''name'', JString ''a.txt''),
                          (''path'', JString ''/tmp''), (''template'', JString ''t1''),
                          (''local'', JNull)]])])
     = Some
       \<lparr>Global = Some [(''x'', VFloat 0x4028000000000000)],
        Files = [\<lparr>File.Name = ''a.txt'', Path = ''/tmp'', Template = ''t1'', Local = None\<rparr>],
        Cmds = []\<rparr>"
    by (simp add: Unmarshal_def member_named_def decode_Files_def decode_Commands_def decode_File_def
        float64_of_int_12)
  have d: "\<lparr>Global = Some [(''x'', VFloat 0x4028000000000000)],
        Files = [\<lparr>File.Name = ''a.txt'', Path = ''/tmp'', Template = ''t1'', Local = None\<rparr>],
        Cmds = []\<rparr>
     \<noteq> \<lparr>Global = Some [(''x'', VInt 12)],
        Files = [\<lparr>File.Name = ''a.txt'', Path = ''/tmp'', Template = ''t1'', Local = None\<rparr>],
        Cmds = []\<rparr>"
    by simp
  have e: "decode_any (JInt 12) = decode_any (JFloat 0x4028000000000000)"
    by (simp add: float64_of_int_12)
  have n: "Marshal
       \<lparr>Global = Some [(''x'', VFloat 0x7FF8000000000001)],
        Files = [\<lparr>File.Name = ''a.txt'', Path = ''/tmp'', Template = ''t1'', Local = None\<rparr>],
        Cmds = []\<rparr> = Inl UnsupportedValue"
    by (simp add: Marshal_def encode_map_def IsInfOrNaN_NaN)
  from r m u d e session_NaN session_one_file [of terminal] c n show ?thesis
    by blast
qed

end
